theory Spec2Isabelle
  imports Main
begin

section \<open>The request-governance layer of urban-wheels\<close>

text \<open>
  A shallow embedding of \<^verbatim>\<open>src/lib/redis/client.ts\<close>, \<^verbatim>\<open>cache.ts\<close> and
  \<^verbatim>\<open>rate-limit.ts\<close>. JavaScript numbers are modelled as \<^typ>\<open>int\<close> (all clock readings,
  limits, counts and TTLs are integers far below \<open>2^53\<close>, where the double arithmetic of
  the source is exact); \<^verbatim>\<open>Math.floor(a / b)\<close> is \<open>a div b\<close>, which agrees with the
  source for every \<open>b \<noteq> 0\<close>. Every \<^verbatim>\<open>Date.now()\<close> of the source, and every instant at
  which the durable store executes a command, is an explicit argument in milliseconds.
  Module-level variables and the contents of the durable store are fields of one state
  record that every operation takes and returns.
\<close>

subsection \<open>Configuration and the backend selector (client.ts)\<close>

text \<open>
  The settings module \<^verbatim>\<open>@/lib/env\<close> lies outside the three files modelled here; the
  three settings that \<^verbatim>\<open>client.ts\<close> reads from it are a record in the state. A string
  setting is absent (\<open>None\<close>) or present; JavaScript treats the absent and the empty
  string as false.
\<close>

record env_vars =
  USE_REDIS :: bool
  UPSTASH_REDIS_REST_URL :: "string option"
  UPSTASH_REDIS_REST_TOKEN :: "string option"

definition falsy :: "string option \<Rightarrow> bool" where
  "falsy v = (case v of None \<Rightarrow> True | Some s \<Rightarrow> s = [])"

text \<open>
  A client object. \<open>serial\<close> stands for the object's identity: it is the number of
  clients constructed before this one.
\<close>

record handle =
  serial :: nat
  url :: "string option"
  token :: "string option"

subsection \<open>Stored data\<close>

record 'v entry =
  data :: 'v
  expiry :: int

record counter =
  count :: int
  reset :: int

text \<open>
  Modelled from the spec: the durable key-value store is an external collaborator, known
  to the sources only through the commands GET, SETEX, DEL, INCR, EXPIRE and KEYS. A
  stored value is a string; it is classified here by whether INCR reads it as a decimal
  integer (\<open>Integer n\<close> is the string of the decimal digits of \<open>n\<close>) or not (\<open>Text s\<close>, \<open>s\<close>
  any other string). An entry carries the instant in milliseconds at which it
  expires, if it has one, and is invisible to every command from that instant on.
\<close>

datatype payload = Integer int | Text string

record rentry =
  payload :: payload
  expireAt :: "int option"

type_synonym kv = "string \<rightharpoonup> rentry"

datatype error = ProducerFailed | NotAnInteger | UrlError

text \<open>
  The state: the environment, the module variable \<^verbatim>\<open>redis\<close> of \<^verbatim>\<open>client.ts\<close>, the two
  maps \<^verbatim>\<open>memoryCache\<close> and \<^verbatim>\<open>memoryStore\<close>, and the contents of the durable store.
  \<open>constructed\<close> counts the evaluations of \<^verbatim>\<open>new Redis(...)\<close> and \<open>warnings\<close> the calls
  of \<^verbatim>\<open>console.warn\<close>.
\<close>

record 'v system =
  env :: env_vars
  redis :: "handle option"
  constructed :: nat
  warnings :: nat
  memoryCache :: "string \<rightharpoonup> 'v entry"
  memoryStore :: "string \<rightharpoonup> counter"
  store :: kv

text \<open>
  The constructor of the client (the package \<^verbatim>\<open>@upstash/redis\<close>, which these files
  import and which is outside them) throws an error on a URL that is not empty and that
  it does not accept; which URLs it accepts is the parameter \<open>ok\<close>. \<open>newRedis ok n u tk\<close> is
  \<^verbatim>\<open>new Redis({url: u, token: tk})\<close> for the client number \<open>n\<close>, and
  \<open>getRedis_checked ok\<close> is \<^verbatim>\<open>getRedis\<close> of \<^verbatim>\<open>client.ts\<close> with this constructor: where
  the constructor throws, so does the selector, and the module variable stays empty.
  \<open>getRedis_checked_calls ok n s\<close>: the outcomes of \<open>n\<close> successive calls, and the state
  after them.
\<close>

definition newRedis ::
  "(string \<Rightarrow> bool) \<Rightarrow> nat \<Rightarrow> string option \<Rightarrow> string option \<Rightarrow> error + handle" where
  "newRedis ok n u tk =
    (case u of
       None \<Rightarrow> Inr \<lparr>serial = n, url = u, token = tk\<rparr>
     | Some x \<Rightarrow>
         if x = [] \<or> ok x then Inr \<lparr>serial = n, url = u, token = tk\<rparr> else Inl UrlError)"

definition getRedis_checked ::
  "(string \<Rightarrow> bool) \<Rightarrow> 'v system \<Rightarrow> (error + handle option) \<times> 'v system" where
  "getRedis_checked ok s =
    (if \<not> USE_REDIS (env s) then (Inr None, s)
     else if falsy (UPSTASH_REDIS_REST_URL (env s)) \<or> falsy (UPSTASH_REDIS_REST_TOKEN (env s))
       then (Inr None, s\<lparr>warnings := warnings s + 1\<rparr>)
     else (case redis s of
             Some h \<Rightarrow> (Inr (Some h), s)
           | None \<Rightarrow>
               (case newRedis ok (constructed s) (UPSTASH_REDIS_REST_URL (env s))
                       (UPSTASH_REDIS_REST_TOKEN (env s)) of
                  Inl e \<Rightarrow> (Inl e, s)
                | Inr h \<Rightarrow>
                    (Inr (Some h), s\<lparr>redis := Some h, constructed := constructed s + 1\<rparr>))))"

fun getRedis_checked_calls ::
  "(string \<Rightarrow> bool) \<Rightarrow> nat \<Rightarrow> 'v system \<Rightarrow> (error + handle option) list \<times> 'v system" where
  "getRedis_checked_calls ok 0 s = ([], s)"
| "getRedis_checked_calls ok (Suc n) s =
    (let (r, s1) = getRedis_checked ok s; (rs, s2) = getRedis_checked_calls ok n s1
     in (r # rs, s2))"

text \<open>
  In a process whose URL the constructor accepts, no call of the selector throws, and
  the selector is the function \<open>getRedis\<close> that follows (lemma
  \<open>getRedis_checked_getRedis\<close>). The cache and the rate limiter are modelled in such a
  process, where the durable backend, if it is configured, can be reached at all. In a
  process whose URL the constructor rejects, the call of the selector with which each
  of their operations begins throws.
\<close>

definition getRedis :: "'v system \<Rightarrow> handle option \<times> 'v system" where
  "getRedis s =
    (if \<not> USE_REDIS (env s) then (None, s)
     else if falsy (UPSTASH_REDIS_REST_URL (env s)) \<or> falsy (UPSTASH_REDIS_REST_TOKEN (env s))
       then (None, s\<lparr>warnings := warnings s + 1\<rparr>)
     else (case redis s of
             Some h \<Rightarrow> (Some h, s)
           | None \<Rightarrow>
               (let h = \<lparr>serial = constructed s,
                         url = UPSTASH_REDIS_REST_URL (env s),
                         token = UPSTASH_REDIS_REST_TOKEN (env s)\<rparr>
                in (Some h, s\<lparr>redis := Some h, constructed := constructed s + 1\<rparr>))))"

definition isRedisEnabled :: "env_vars \<Rightarrow> bool" where
  "isRedisEnabled e =
    (USE_REDIS e \<and> \<not> falsy (UPSTASH_REDIS_REST_URL e) \<and> \<not> falsy (UPSTASH_REDIS_REST_TOKEN e))"

subsection \<open>The durable store's commands\<close>

text \<open>
  Modelled from the spec: the commands of the durable store (section 6 of the
  specification), each executed at the instant \<open>t\<close> of the store's clock. An entry set
  with a TTL of \<open>T\<close> seconds at \<open>t\<close> is visible at every instant before \<open>t + 1000 * T\<close>
  and at none from then on. INCR creates an absent key with the value 1 and no expiry,
  keeps the expiry of a key it increments, and fails on a value that is not an
  integer; EXPIRE sets the expiry of a visible key and does nothing to an absent one.
  Failures of the network are not modelled.
\<close>

definition live :: "rentry \<Rightarrow> int \<Rightarrow> bool" where
  "live e t = (case expireAt e of None \<Rightarrow> True | Some x \<Rightarrow> t < x)"

definition lookup :: "kv \<Rightarrow> int \<Rightarrow> string \<Rightarrow> rentry option" where
  "lookup d t k = (case d k of None \<Rightarrow> None | Some e \<Rightarrow> if live e t then Some e else None)"

definition GET :: "kv \<Rightarrow> int \<Rightarrow> string \<Rightarrow> payload option" where
  "GET d t k = map_option payload (lookup d t k)"

definition SETEX :: "kv \<Rightarrow> int \<Rightarrow> string \<Rightarrow> int \<Rightarrow> payload \<Rightarrow> kv" where
  "SETEX d t k ttl v = d(k \<mapsto> \<lparr>payload = v, expireAt = Some (t + ttl * 1000)\<rparr>)"

definition DEL :: "kv \<Rightarrow> string set \<Rightarrow> kv" where
  "DEL d ks = (\<lambda>k. if k \<in> ks then None else d k)"

definition INCR :: "kv \<Rightarrow> int \<Rightarrow> string \<Rightarrow> (error + int) \<times> kv" where
  "INCR d t k =
    (case lookup d t k of
       None \<Rightarrow> (Inr 1, d(k \<mapsto> \<lparr>payload = Integer 1, expireAt = None\<rparr>))
     | Some e \<Rightarrow>
         (case payload e of
            Integer n \<Rightarrow> (Inr (n + 1), d(k \<mapsto> e\<lparr>payload := Integer (n + 1)\<rparr>))
          | Text x \<Rightarrow> (Inl NotAnInteger, d)))"

definition EXPIRE :: "kv \<Rightarrow> int \<Rightarrow> string \<Rightarrow> int \<Rightarrow> kv" where
  "EXPIRE d t k ttl =
    (case lookup d t k of
       None \<Rightarrow> d
     | Some e \<Rightarrow> d(k \<mapsto> e\<lparr>expireAt := Some (t + ttl * 1000)\<rparr>))"

text \<open>
  Modelled from the spec: the pattern language of KEYS. \<open>*\<close> matches any run of
  characters, \<open>?\<close> any one character, a backslash makes the next character literal, and
  every other character matches itself. Bracketed character classes are not modelled.
\<close>

fun glob :: "string \<Rightarrow> string \<Rightarrow> bool" where
  "glob [] s = (s = [])"
| "glob (c # p) s =
    (if c = CHR ''*'' then
       (glob p s \<or> (case s of [] \<Rightarrow> False | x # s' \<Rightarrow> glob (c # p) s'))
     else if c = CHR ''?'' then
       (case s of [] \<Rightarrow> False | x # s' \<Rightarrow> glob p s')
     else if c = CHR 0x5C then
       (case p of
          [] \<Rightarrow> s = [c]
        | e # p' \<Rightarrow> (case s of [] \<Rightarrow> False | x # s' \<Rightarrow> x = e \<and> glob p' s'))
     else (case s of [] \<Rightarrow> False | x # s' \<Rightarrow> x = c \<and> glob p s'))"

definition KEYS :: "kv \<Rightarrow> int \<Rightarrow> string \<Rightarrow> string set" where
  "KEYS d t pat = {k. lookup d t k \<noteq> None \<and> glob pat k}"

subsection \<open>The cache (cache.ts)\<close>

record prefixed =
  keyPrefix :: "string option"

record CacheConfig = prefixed +
  ttl :: "int option"

text \<open>A default parameter value: it stands in for an argument that is not given.\<close>

definition dflt :: "'a \<Rightarrow> 'a option \<Rightarrow> 'a" where
  "dflt d v = (case v of None \<Rightarrow> d | Some x \<Rightarrow> x)"

definition fullKey :: "string \<Rightarrow> string \<Rightarrow> string" where
  "fullKey prefix key = prefix @ '':'' @ key"

text \<open>
  Modelled from the spec: \<^verbatim>\<open>JSON.stringify\<close> and \<^verbatim>\<open>JSON.parse\<close> are taken as a pair of
  functions on the opaque type of cached values; \<open>parse\<close> yields \<open>None\<close> where
  \<^verbatim>\<open>JSON.parse\<close> throws. The other three fields are what JavaScript itself makes of a
  value of that type: \<open>asText v\<close> is the string of \<open>v\<close> where a string is wanted, as in
  the argument of \<^verbatim>\<open>JSON.parse\<close> (the value itself when it is a string); \<open>truthy v\<close> is
  the truth value of \<open>v\<close> in a condition; \<open>numeric v\<close> says that \<open>v\<close> is a number.
\<close>

record 'v json =
  stringify :: "'v \<Rightarrow> payload"
  parse :: "payload \<Rightarrow> 'v option"
  asText :: "'v \<Rightarrow> payload"
  truthy :: "'v \<Rightarrow> bool"
  numeric :: "'v \<Rightarrow> bool"

text \<open>
  The client of the durable store (the package \<^verbatim>\<open>@upstash/redis\<close>, outside these files)
  does not hand the stored text to its caller as it is. Its \<^verbatim>\<open>get\<close> decodes the text as
  JSON and returns the decoded value; it returns the text itself where the decoding
  throws, and for a number whose own text differs from the stored one. \<open>redis_get\<close> is
  \<^verbatim>\<open>redis.get\<close>, with \<open>None\<close> for \<^verbatim>\<open>null\<close>.
\<close>

datatype 'v reply = Decoded 'v | Raw payload

definition decode :: "'v json \<Rightarrow> payload \<Rightarrow> 'v reply" where
  "decode J p =
    (case parse J p of
       None \<Rightarrow> Raw p
     | Some v \<Rightarrow> if numeric J v \<and> asText J v \<noteq> p then Raw p else Decoded v)"

definition redis_get :: "'v json \<Rightarrow> kv \<Rightarrow> int \<Rightarrow> string \<Rightarrow> 'v reply option" where
  "redis_get J d t k = map_option (decode J) (GET d t k)"

text \<open>
  What \<^verbatim>\<open>cache.ts\<close> does with a reply: \<open>truthyReply\<close> is the test \<^verbatim>\<open>if (cached)\<close>, in
  which a text is false only when it is empty, and \<open>parseReply\<close> is
  \<^verbatim>\<open>JSON.parse(cached)\<close>, which reads the reply as a string first.
\<close>

definition truthyReply :: "'v json \<Rightarrow> 'v reply \<Rightarrow> bool" where
  "truthyReply J r = (case r of Decoded v \<Rightarrow> truthy J v | Raw p \<Rightarrow> p \<noteq> Text [])"

definition parseReply :: "'v json \<Rightarrow> 'v reply \<Rightarrow> 'v option" where
  "parseReply J r = parse J (case r of Decoded v \<Rightarrow> asText J v | Raw p \<Rightarrow> p)"

definition cleanupMemoryCache :: "int \<Rightarrow> (string \<rightharpoonup> 'v entry) \<Rightarrow> (string \<rightharpoonup> 'v entry)" where
  "cleanupMemoryCache now m =
    (\<lambda>k. case m k of None \<Rightarrow> None | Some e \<Rightarrow> if expiry e < now then None else Some e)"

text \<open>
  The producer of \<open>getOrSet\<close> is given by the outcome of awaiting it: \<open>Inr v\<close> when it
  resolves to \<open>v\<close>, \<open>Inl e\<close> when it rejects. Each of the functions below returns, next
  to its result and the new state, whether the producer was invoked.

  \<open>getOrSet\<close> reads the clock three times on the in-memory path (the sweep at \<open>t0\<close>, the
  expiry test at \<open>t1\<close>, the store after the producer at \<open>t2\<close>); on the durable path the
  store executes GET at \<open>t0\<close> and SETEX at \<open>t2\<close>.
\<close>

definition getOrSet_redis ::
  "'v json \<Rightarrow> 'v system \<Rightarrow> int \<Rightarrow> int \<Rightarrow> string \<Rightarrow> error + 'v \<Rightarrow> int
    \<Rightarrow> (error + 'v) \<times> bool \<times> 'v system" where
  "getOrSet_redis J s t0 t2 k fetcher ttl' =
    (let cached = redis_get J (store s) t0 k;
         hit = (case cached of
                  None \<Rightarrow> None
                | Some r \<Rightarrow> if truthyReply J r then parseReply J r else None)
     in case hit of
          Some v \<Rightarrow> (Inr v, False, s)
        | None \<Rightarrow>
            (case fetcher of
               Inl e \<Rightarrow> (Inl e, True, s)
             | Inr d \<Rightarrow>
                 (Inr d, True, s\<lparr>store := SETEX (store s) t2 k ttl' (stringify J d)\<rparr>)))"

definition getOrSet_memory ::
  "'v system \<Rightarrow> int \<Rightarrow> int \<Rightarrow> int \<Rightarrow> string \<Rightarrow> error + 'v \<Rightarrow> int
    \<Rightarrow> (error + 'v) \<times> bool \<times> 'v system" where
  "getOrSet_memory s t0 t1 t2 k fetcher ttl' =
    (let s1 = s\<lparr>memoryCache := cleanupMemoryCache t0 (memoryCache s)\<rparr>;
         hit = (case memoryCache s1 k of
                  None \<Rightarrow> None
                | Some c \<Rightarrow> if expiry c > t1 then Some (data c) else None)
     in case hit of
          Some v \<Rightarrow> (Inr v, False, s1)
        | None \<Rightarrow>
            (case fetcher of
               Inl e \<Rightarrow> (Inl e, True, s1)
             | Inr d \<Rightarrow>
                 (Inr d, True,
                  s1\<lparr>memoryCache :=
                       (memoryCache s1)(k \<mapsto> \<lparr>data = d, expiry = t2 + ttl' * 1000\<rparr>)\<rparr>)))"

definition getOrSet ::
  "'v json \<Rightarrow> 'v system \<Rightarrow> int \<Rightarrow> int \<Rightarrow> int \<Rightarrow> string \<Rightarrow> error + 'v \<Rightarrow> CacheConfig
    \<Rightarrow> (error + 'v) \<times> bool \<times> 'v system" where
  "getOrSet J s t0 t1 t2 key fetcher config =
    (let ttl' = dflt 300 (ttl config);
         k = fullKey (dflt ''cache'' (keyPrefix config)) key;
         (r, s1) = getRedis s
     in case r of
          Some h \<Rightarrow> getOrSet_redis J s1 t0 t2 k fetcher ttl'
        | None \<Rightarrow> getOrSet_memory s1 t0 t1 t2 k fetcher ttl')"

definition get ::
  "'v json \<Rightarrow> 'v system \<Rightarrow> int \<Rightarrow> string \<Rightarrow> string option \<Rightarrow> 'v option \<times> 'v system" where
  "get J s t key prefix =
    (let k = fullKey (dflt ''cache'' prefix) key;
         (r, s1) = getRedis s
     in case r of
          Some h \<Rightarrow>
            (case redis_get J (store s1) t k of
               None \<Rightarrow> (None, s1)
             | Some r \<Rightarrow> if \<not> truthyReply J r then (None, s1) else (parseReply J r, s1))
        | None \<Rightarrow>
            (case memoryCache s1 k of
               None \<Rightarrow> (None, s1)
             | Some c \<Rightarrow> if expiry c > t then (Some (data c), s1) else (None, s1)))"

definition set' ::
  "'v json \<Rightarrow> 'v system \<Rightarrow> int \<Rightarrow> string \<Rightarrow> 'v \<Rightarrow> CacheConfig \<Rightarrow> 'v system" where
  "set' J s t key v config =
    (let ttl' = dflt 300 (ttl config);
         k = fullKey (dflt ''cache'' (keyPrefix config)) key;
         (r, s1) = getRedis s
     in case r of
          Some h \<Rightarrow> s1\<lparr>store := SETEX (store s1) t k ttl' (stringify J v)\<rparr>
        | None \<Rightarrow>
            s1\<lparr>memoryCache := (memoryCache s1)(k \<mapsto> \<lparr>data = v, expiry = t + ttl' * 1000\<rparr>)\<rparr>)"

definition del :: "'v system \<Rightarrow> string \<Rightarrow> string option \<Rightarrow> 'v system" where
  "del s key prefix =
    (let k = fullKey (dflt ''cache'' prefix) key;
         (r, s1) = getRedis s
     in case r of
          Some h \<Rightarrow> s1\<lparr>store := DEL (store s1) {k}\<rparr>
        | None \<Rightarrow> s1\<lparr>memoryCache := (memoryCache s1)(k := None)\<rparr>)"

definition startsWith :: "string \<Rightarrow> string \<Rightarrow> bool" where
  "startsWith s p = (take (length p) s = p)"

text \<open>
  \<^verbatim>\<open>fullPattern.replace("*", "")\<close> removes the first \<open>*\<close> of the full pattern, which is
  \<open>remove1\<close>. On the durable path the store executes KEYS and DEL at \<open>t\<close>.
\<close>

definition delPattern :: "'v system \<Rightarrow> int \<Rightarrow> string \<Rightarrow> string option \<Rightarrow> 'v system" where
  "delPattern s t pattern prefix =
    (let fullPattern = fullKey (dflt ''cache'' prefix) pattern;
         (r, s1) = getRedis s
     in case r of
          Some h \<Rightarrow>
            (let keys = KEYS (store s1) t fullPattern
             in if keys \<noteq> {} then s1\<lparr>store := DEL (store s1) keys\<rparr> else s1)
        | None \<Rightarrow>
            (let p = remove1 (CHR ''*'') fullPattern
             in s1\<lparr>memoryCache :=
                    (\<lambda>key. if startsWith key p then None else memoryCache s1 key)\<rparr>))"

subsection \<open>The rate limiter (rate-limit.ts)\<close>

record RateLimitConfig = prefixed +
  limit :: int
  windowInSeconds :: int

record RateLimitResult =
  success :: bool
  remaining :: int
  reset' :: int
  limit' :: int

definition cleanupMemoryStore :: "int \<Rightarrow> (string \<rightharpoonup> counter) \<Rightarrow> (string \<rightharpoonup> counter)" where
  "cleanupMemoryStore now m =
    (\<lambda>k. case m k of None \<Rightarrow> None | Some c \<Rightarrow> if reset c < now then None else Some c)"

text \<open>
  The durable path: the pipeline of INCR and EXPIRE, executed by the store at \<open>t\<close>. The
  pipeline is not a transaction: EXPIRE runs whether or not INCR failed, and a failed
  command makes \<^verbatim>\<open>exec\<close> throw.
\<close>

definition rateLimit_redis ::
  "'v system \<Rightarrow> int \<Rightarrow> string \<Rightarrow> RateLimitConfig \<Rightarrow> int
    \<Rightarrow> (error + RateLimitResult) \<times> 'v system" where
  "rateLimit_redis s t key config rst =
    (let (r, d1) = INCR (store s) t key;
         d2 = EXPIRE d1 t key (windowInSeconds config);
         s' = s\<lparr>store := d2\<rparr>
     in case r of
          Inl e \<Rightarrow> (Inl e, s')
        | Inr cnt \<Rightarrow>
            (Inr \<lparr>success = cnt \<le> limit config,
                  remaining = max 0 (limit config - cnt),
                  reset' = rst,
                  limit' = limit config\<rparr>, s'))"

text \<open>The in-memory path: the sweep reads the clock at \<open>t1\<close>, the test of line 74 at \<open>t2\<close>.\<close>

definition rateLimit_memory ::
  "'v system \<Rightarrow> int \<Rightarrow> int \<Rightarrow> string \<Rightarrow> RateLimitConfig \<Rightarrow> int
    \<Rightarrow> (error + RateLimitResult) \<times> 'v system" where
  "rateLimit_memory s t1 t2 key config rst =
    (let s1 = s\<lparr>memoryStore := cleanupMemoryStore t1 (memoryStore s)\<rparr>;
         existing = (case memoryStore s1 key of
                       None \<Rightarrow> None
                     | Some c \<Rightarrow> if reset c < t2 then None else Some c)
     in case existing of
          None \<Rightarrow>
            (Inr \<lparr>success = True,
                  remaining = limit config - 1,
                  reset' = rst,
                  limit' = limit config\<rparr>,
             s1\<lparr>memoryStore := (memoryStore s1)(key \<mapsto> \<lparr>count = 1, reset = rst * 1000\<rparr>)\<rparr>)
        | Some c \<Rightarrow>
            (let c' = c\<lparr>count := count c + 1\<rparr>
             in (Inr \<lparr>success = count c' \<le> limit config,
                      remaining = max 0 (limit config - count c'),
                      reset' = reset c' div 1000,
                      limit' = limit config\<rparr>,
                 s1\<lparr>memoryStore := (memoryStore s1)(key \<mapsto> c')\<rparr>)))"

text \<open>
  \<open>rateLimit s t0 t1 t2 identifier config\<close>: \<open>t0\<close> is the clock reading of line 47; on the
  durable path the store executes the pipeline at \<open>t1\<close>; on the in-memory path \<open>t1\<close> and
  \<open>t2\<close> are the readings of the sweep and of line 74. A policy has a positive
  \<open>windowInSeconds\<close>; at zero the source divides by zero and the model is not the program.
\<close>

definition windowEnd :: "int \<Rightarrow> int \<Rightarrow> int" where
  "windowEnd t0 w =
    (let now = t0 div 1000;
         windowStart = (now div w) * w
     in windowStart + w)"

definition counterKey :: "RateLimitConfig \<Rightarrow> string \<Rightarrow> string" where
  "counterKey config identifier = fullKey (dflt ''rl'' (keyPrefix config)) identifier"

definition rateLimit ::
  "'v system \<Rightarrow> int \<Rightarrow> int \<Rightarrow> int \<Rightarrow> string \<Rightarrow> RateLimitConfig
    \<Rightarrow> (error + RateLimitResult) \<times> 'v system" where
  "rateLimit s t0 t1 t2 identifier config =
    (let key = counterKey config identifier;
         rst = windowEnd t0 (windowInSeconds config);
         (r, s1) = getRedis s
     in case r of
          Some h \<Rightarrow> rateLimit_redis s1 t1 key config rst
        | None \<Rightarrow> rateLimit_memory s1 t1 t2 key config rst)"

text \<open>
  \<open>rateLimit_calls s ts identifier config\<close>: successive calls for one identifier under
  one policy, one call for each triple of clock readings in \<open>ts\<close>.
\<close>

fun rateLimit_calls ::
  "'v system \<Rightarrow> (int \<times> int \<times> int) list \<Rightarrow> string \<Rightarrow> RateLimitConfig
    \<Rightarrow> (error + RateLimitResult) list \<times> 'v system" where
  "rateLimit_calls s [] identifier config = ([], s)"
| "rateLimit_calls s ((t0, t1, t2) # ts) identifier config =
    (let (r, s1) = rateLimit s t0 t1 t2 identifier config;
         (rs, s2) = rateLimit_calls s1 ts identifier config
     in (r # rs, s2))"

subsection \<open>Notions of the specification\<close>

text \<open>
  The admission decision of section 4.4 of the specification for a counter that stands
  at \<open>cnt\<close> after the call: \<open>success = (count <= limit)\<close> and
  \<open>remaining = max(0, limit - count)\<close>.
\<close>

definition admission :: "RateLimitConfig \<Rightarrow> int \<Rightarrow> int \<Rightarrow> RateLimitResult" where
  "admission config cnt rst =
    \<lparr>success = cnt \<le> limit config, remaining = max 0 (limit config - cnt),
     reset' = rst, limit' = limit config\<rparr>"

text \<open>
  The fixed window number \<open>W\<close> of length \<open>w\<close> seconds is the half-open interval of
  the instants, in milliseconds, from \<open>W * w\<close> seconds up to \<open>(W + 1) * w\<close> seconds. A
  call lies in a window when each of its three clock readings does.
\<close>

definition inWindow :: "int \<Rightarrow> int \<Rightarrow> int \<Rightarrow> bool" where
  "inWindow W w t = (W * w * 1000 \<le> t \<and> t < (W + 1) * w * 1000)"

definition callInWindow :: "int \<Rightarrow> int \<Rightarrow> int \<times> int \<times> int \<Rightarrow> bool" where
  "callInWindow W w c =
    (case c of (t0, t1, t2) \<Rightarrow> inWindow W w t0 \<and> inWindow W w t1 \<and> inWindow W w t2)"

text \<open>
  The count that the backend in use holds under a key, if it holds one, whether or not
  the counter is still in force.
\<close>

definition storedCount :: "'v system \<Rightarrow> string \<Rightarrow> int option" where
  "storedCount s k =
    (if isRedisEnabled (env s) then
       (case store s k of
          None \<Rightarrow> None
        | Some e \<Rightarrow> (case payload e of Integer n \<Rightarrow> Some n | Text x \<Rightarrow> None))
     else map_option count (memoryStore s k))"

text \<open>
  \<open>expiredAt s k t\<close>: the backend in use holds an entry under the key \<open>k\<close> and the
  expiry of that entry has passed at the instant \<open>t\<close>.
\<close>

definition expiredAt :: "'v system \<Rightarrow> string \<Rightarrow> int \<Rightarrow> bool" where
  "expiredAt s k t =
    (if isRedisEnabled (env s) then
       (case store s k of None \<Rightarrow> False | Some e \<Rightarrow> \<not> live e t)
     else (case memoryCache s k of None \<Rightarrow> False | Some c \<Rightarrow> expiry c \<le> t))"

text \<open>
  \<open>unexpiredAt s k t\<close>: the backend in use holds an entry under the key \<open>k\<close> and the
  instant \<open>t\<close> lies in the TTL window of that entry, before its expiry.
\<close>

definition unexpiredAt :: "'v system \<Rightarrow> string \<Rightarrow> int \<Rightarrow> bool" where
  "unexpiredAt s k t =
    (if isRedisEnabled (env s) then
       (case store s k of None \<Rightarrow> False | Some e \<Rightarrow> live e t)
     else (case memoryCache s k of None \<Rightarrow> False | Some c \<Rightarrow> t < expiry c))"

text \<open>
  \<open>readsBack J v\<close>: what a read on the durable backend makes of the text that a write
  has stored for the value \<open>v\<close>, while the entry is visible.
\<close>

definition readsBack :: "'v json \<Rightarrow> 'v \<Rightarrow> 'v option" where
  "readsBack J v =
    (let r = decode J (stringify J v) in if truthyReply J r then parseReply J r else None)"

text \<open>
  A string is plain when it has none of the characters that the pattern language of the
  durable store reads as other than themselves: the star, the question mark, the opening
  bracket and the backslash.
\<close>

definition plain :: "string \<Rightarrow> bool" where
  "plain p =
    (CHR ''*'' \<notin> set p \<and> CHR ''?'' \<notin> set p \<and> CHR ''['' \<notin> set p \<and> CHR 0x5C \<notin> set p)"

subsection \<open>Sample states\<close>

text \<open>
  A process that has just started, with an empty durable store, under three
  environments: the durable backend switched off, switched on with both credentials, and
  switched on with the URL missing.
\<close>

definition boot :: "env_vars \<Rightarrow> 'v system" where
  "boot e = \<lparr>env = e, redis = None, constructed = 0, warnings = 0,
             memoryCache = Map.empty, memoryStore = Map.empty, store = Map.empty\<rparr>"

definition env_off :: env_vars where
  "env_off = \<lparr>USE_REDIS = False, UPSTASH_REDIS_REST_URL = None,
               UPSTASH_REDIS_REST_TOKEN = None\<rparr>"

definition env_on :: env_vars where
  "env_on = \<lparr>USE_REDIS = True, UPSTASH_REDIS_REST_URL = Some ''https://db.upstash.io'',
              UPSTASH_REDIS_REST_TOKEN = Some ''t''\<rparr>"

definition env_broken :: env_vars where
  "env_broken = \<lparr>USE_REDIS = True, UPSTASH_REDIS_REST_URL = None,
                  UPSTASH_REDIS_REST_TOKEN = Some ''t''\<rparr>"

text \<open>
  The reservation policy of \<^verbatim>\<open>defaultLimits\<close>, and the clock readings of six calls in
  the first minute of the epoch.
\<close>

definition reservation :: RateLimitConfig where
  "reservation = \<lparr>keyPrefix = None, limit = 5, windowInSeconds = 60\<rparr>"

definition six_calls_in_a_minute :: "(int \<times> int \<times> int) list" where
  "six_calls_in_a_minute =
    [(0, 0, 0), (1500, 1501, 1501), (20000, 20003, 20003), (30000, 30000, 30001),
     (59000, 59001, 59001), (59998, 59999, 59999)]"

text \<open>
  An identifier that has used the five requests of the first minute of the epoch, on
  the in-memory backend and on the durable one.
\<close>

definition spent_memory :: "nat system" where
  "spent_memory =
    (boot env_off)\<lparr>memoryStore := [''rl:1.2.3.4'' \<mapsto> \<lparr>count = 5, reset = 60000\<rparr>]\<rparr>"

definition spent_store :: "nat system" where
  "spent_store =
    (boot env_on)\<lparr>store := [''rl:1.2.3.4'' \<mapsto>
                                 \<lparr>payload = Integer 5, expireAt = Some 60000\<rparr>]\<rparr>"


text \<open>
  An environment whose URL is present and is not one, and a constructor that accepts
  the URLs that begin with \<^verbatim>\<open>https://\<close>.
\<close>

definition env_malformed :: env_vars where
  "env_malformed = \<lparr>USE_REDIS = True, UPSTASH_REDIS_REST_URL = Some ''u'',
                     UPSTASH_REDIS_REST_TOKEN = Some ''t''\<rparr>"

definition secure :: "string \<Rightarrow> bool" where
  "secure u = startsWith u ''https://''"


text \<open>
  Cached values that are natural numbers, with their JSON text: the decimal digits of
  the number. As a string a number is its digits; in a condition every number but zero
  is true.
\<close>

definition natJSON :: "nat json" where
  "natJSON =
    \<lparr>stringify = (\<lambda>n. Integer (int n)),
     parse = (\<lambda>p. case p of Integer i \<Rightarrow> if 0 \<le> i then Some (nat i) else None
                            | Text x \<Rightarrow> None),
     asText = (\<lambda>n. Integer (int n)),
     truthy = (\<lambda>n. n \<noteq> 0),
     numeric = (\<lambda>n. True)\<rparr>"

text \<open>
  Cached values that are a count or the empty object \<^verbatim>\<open>{}\<close>. As a string the object is
  \<^verbatim>\<open>[object Object]\<close>, which is no JSON text; in a condition the object is true.
\<close>

datatype doc = Count nat | Object

definition docJSON :: "doc json" where
  "docJSON =
    \<lparr>stringify = (\<lambda>v. case v of Count n \<Rightarrow> Integer (int n) | Object \<Rightarrow> Text ''{}''),
     parse = (\<lambda>p. case p of Integer i \<Rightarrow> if 0 \<le> i then Some (Count (nat i)) else None
                            | Text x \<Rightarrow> if x = ''{}'' then Some Object else None),
     asText = (\<lambda>v. case v of Count n \<Rightarrow> Integer (int n) | Object \<Rightarrow> Text ''[object Object]''),
     truthy = (\<lambda>v. case v of Count n \<Rightarrow> n \<noteq> 0 | Object \<Rightarrow> True),
     numeric = (\<lambda>v. case v of Count n \<Rightarrow> True | Object \<Rightarrow> False)\<rparr>"

text \<open>A cache configuration with a TTL of ten seconds and the default key prefix.\<close>

definition ten_seconds :: CacheConfig where
  "ten_seconds = \<lparr>keyPrefix = None, ttl = Some 10\<rparr>"

text \<open>The default cache configuration, written out: a TTL of 300 seconds.\<close>

definition five_minutes :: CacheConfig where
  "five_minutes = \<lparr>keyPrefix = None, ttl = Some 300\<rparr>"

text \<open>
  A durable store that holds, under the cache key of \<open>cars\<close>, a text that is not JSON;
  and an in-memory cache that holds an entry which expired at the instant 500.
\<close>

definition garbled :: "nat system" where
  "garbled =
    (boot env_on)\<lparr>store := [''cache:cars'' \<mapsto>
                                 \<lparr>payload = Text ''{oops'', expireAt = None\<rparr>]\<rparr>"


text \<open>
  The cache after \<^verbatim>\<open>set("a:1", 1)\<close>, \<^verbatim>\<open>set("a:2", 2)\<close> and \<^verbatim>\<open>set("b:1", 3)\<close> at the
  instants 0, 1 and 2, under an environment \<open>e\<close>; and a cache configuration whose key
  prefix has a star in it.
\<close>

definition three_keys :: "env_vars \<Rightarrow> nat system" where
  "three_keys e =
    set' natJSON
      (set' natJSON (set' natJSON (boot e) 0 ''a:1'' 1 five_minutes) 1 ''a:2'' 2 five_minutes)
      2 ''b:1'' 3 five_minutes"

definition starred :: CacheConfig where
  "starred = \<lparr>keyPrefix = Some ''c*'', ttl = None\<rparr>"

section \<open>The backend selector\<close>

lemma getRedis_env [simp]: "env (snd (getRedis s)) = env s"
  by (simp add: getRedis_def Let_def split: option.splits)

lemma getRedis_memoryCache [simp]: "memoryCache (snd (getRedis s)) = memoryCache s"
  by (simp add: getRedis_def Let_def split: option.splits)

lemma getRedis_memoryStore [simp]: "memoryStore (snd (getRedis s)) = memoryStore s"
  by (simp add: getRedis_def Let_def split: option.splits)

lemma getRedis_store [simp]: "store (snd (getRedis s)) = store s"
  by (simp add: getRedis_def Let_def split: option.splits)

lemma getRedis_None: "fst (getRedis s) = None \<longleftrightarrow> \<not> isRedisEnabled (env s)"
  by (auto simp: getRedis_def isRedisEnabled_def Let_def split: option.splits)

lemma getRedis_disabled:
  "\<not> USE_REDIS (env s) \<Longrightarrow> getRedis s = (None, s)"
  by (simp add: getRedis_def)

lemma getRedis_misconfigured:
  "USE_REDIS (env s) \<Longrightarrow> \<not> isRedisEnabled (env s)
    \<Longrightarrow> getRedis s = (None, s\<lparr>warnings := warnings s + 1\<rparr>)"
  by (auto simp: getRedis_def isRedisEnabled_def)

lemma getRedis_singleton:
  "isRedisEnabled (env s) \<Longrightarrow> redis s = Some h \<Longrightarrow> getRedis s = (Some h, s)"
  by (simp add: getRedis_def isRedisEnabled_def)

lemma getRedis_construct:
  "isRedisEnabled (env s) \<Longrightarrow> redis s = None \<Longrightarrow>
    \<exists>h. getRedis s = (Some h, s\<lparr>redis := Some h, constructed := constructed s + 1\<rparr>)"
  by (simp add: getRedis_def isRedisEnabled_def Let_def)

text \<open>The selector with the constructor's check, case by case.\<close>

lemma getRedis_checked_disabled:
  "\<not> USE_REDIS (env s) \<Longrightarrow> getRedis_checked ok s = (Inr None, s)"
  by (simp add: getRedis_checked_def)

lemma getRedis_checked_misconfigured:
  "USE_REDIS (env s) \<Longrightarrow> \<not> isRedisEnabled (env s)
    \<Longrightarrow> getRedis_checked ok s = (Inr None, s\<lparr>warnings := warnings s + 1\<rparr>)"
  by (auto simp: getRedis_checked_def isRedisEnabled_def)

lemma getRedis_checked_singleton:
  "isRedisEnabled (env s) \<Longrightarrow> redis s = Some h \<Longrightarrow> getRedis_checked ok s = (Inr (Some h), s)"
  by (simp add: getRedis_checked_def isRedisEnabled_def)

lemma getRedis_checked_rejected:
  "isRedisEnabled (env s) \<Longrightarrow> redis s = None \<Longrightarrow> UPSTASH_REDIS_REST_URL (env s) = Some u
    \<Longrightarrow> \<not> ok u \<Longrightarrow> getRedis_checked ok s = (Inl UrlError, s)"
  by (simp add: getRedis_checked_def isRedisEnabled_def newRedis_def falsy_def)

lemma getRedis_checked_accepted:
  "isRedisEnabled (env s) \<Longrightarrow> redis s = None \<Longrightarrow> UPSTASH_REDIS_REST_URL (env s) = Some u
    \<Longrightarrow> ok u \<Longrightarrow>
    getRedis_checked ok s =
      (Inr (Some \<lparr>serial = constructed s, url = UPSTASH_REDIS_REST_URL (env s),
                   token = UPSTASH_REDIS_REST_TOKEN (env s)\<rparr>),
       s\<lparr>redis := Some \<lparr>serial = constructed s, url = UPSTASH_REDIS_REST_URL (env s),
                         token = UPSTASH_REDIS_REST_TOKEN (env s)\<rparr>,
         constructed := constructed s + 1\<rparr>)"
  by (simp add: getRedis_checked_def isRedisEnabled_def newRedis_def falsy_def)

text \<open>
  Where the constructor does not throw, that is unless the backend is fully configured,
  no client is held and the URL is rejected, the selector with the check is \<open>getRedis\<close>.
\<close>

lemma getRedis_checked_getRedis:
  assumes "isRedisEnabled (env s) \<and> redis s = None
            \<longrightarrow> (\<exists>u. UPSTASH_REDIS_REST_URL (env s) = Some u \<and> ok u)"
  shows "getRedis_checked ok s = (Inr (fst (getRedis s)), snd (getRedis s))"
  using assms
  by (auto simp: getRedis_checked_def getRedis_def isRedisEnabled_def newRedis_def falsy_def
           Let_def split: option.splits)

lemma checked_calls_disabled:
  "\<not> USE_REDIS (env s) \<Longrightarrow> getRedis_checked_calls ok n s = (replicate n (Inr None), s)"
  by (induction n) (simp_all add: getRedis_checked_disabled)

lemma checked_calls_misconfigured:
  "USE_REDIS (env s) \<Longrightarrow> \<not> isRedisEnabled (env s)
    \<Longrightarrow> getRedis_checked_calls ok n s =
          (replicate n (Inr None), s\<lparr>warnings := warnings s + n\<rparr>)"
  by (induction n arbitrary: s) (simp_all add: getRedis_checked_misconfigured)

lemma checked_calls_singleton:
  "isRedisEnabled (env s) \<Longrightarrow> redis s = Some h
    \<Longrightarrow> getRedis_checked_calls ok n s = (replicate n (Inr (Some h)), s)"
  by (induction n) (simp_all add: getRedis_checked_singleton)

lemma checked_calls_rejected:
  "isRedisEnabled (env s) \<Longrightarrow> redis s = None \<Longrightarrow> UPSTASH_REDIS_REST_URL (env s) = Some u
    \<Longrightarrow> \<not> ok u \<Longrightarrow> getRedis_checked_calls ok n s = (replicate n (Inl UrlError), s)"
  by (induction n) (simp_all add: getRedis_checked_rejected)

lemma checked_calls_accepted:
  assumes "isRedisEnabled (env s)" "redis s = None"
    "UPSTASH_REDIS_REST_URL (env s) = Some u" "ok u"
  shows "getRedis_checked_calls ok (Suc n) s =
      (replicate (Suc n)
         (Inr (Some \<lparr>serial = constructed s, url = UPSTASH_REDIS_REST_URL (env s),
                      token = UPSTASH_REDIS_REST_TOKEN (env s)\<rparr>)),
       s\<lparr>redis := Some \<lparr>serial = constructed s, url = UPSTASH_REDIS_REST_URL (env s),
                         token = UPSTASH_REDIS_REST_TOKEN (env s)\<rparr>,
         constructed := constructed s + 1\<rparr>)"
proof -
  let ?h = "\<lparr>serial = constructed s, url = UPSTASH_REDIS_REST_URL (env s),
             token = UPSTASH_REDIS_REST_TOKEN (env s)\<rparr>"
  let ?s = "s\<lparr>redis := Some ?h, constructed := constructed s + 1\<rparr>"
  have first: "getRedis_checked ok s = (Inr (Some ?h), ?s)"
    using assms by (rule getRedis_checked_accepted)
  have rest: "getRedis_checked_calls ok n ?s = (replicate n (Inr (Some ?h)), ?s)"
    using assms by (intro checked_calls_singleton) simp_all
  show ?thesis
    by (simp only: getRedis_checked_calls.simps first rest Let_def split_conv replicate.simps)
qed

text \<open>
  C8, as the code has it. Any number of calls of the selector with the durable backend
  switched off return \<open>None\<close> and leave the state alone (no warning is logged); with the
  backend switched on and a credential missing or empty they return \<open>None\<close> and log the
  warning once for each call; neither throws. With the backend switched on and both
  credentials present: where a client is held, every call returns that client and
  changes nothing; where none is held and the constructor accepts the URL, the first
  call constructs a client, and that call and every later one return this one client,
  which is held from then on; where none is held and the constructor rejects the URL,
  every call throws the constructor's error, and no client is ever held.
\<close>

theorem getRedis_selector:
  "(\<not> USE_REDIS (env s) \<longrightarrow>
      getRedis_checked_calls ok n s = (replicate n (Inr None), s)) \<and>
   (USE_REDIS (env s) \<and> \<not> isRedisEnabled (env s) \<longrightarrow>
      getRedis_checked_calls ok n s =
        (replicate n (Inr None), s\<lparr>warnings := warnings s + n\<rparr>)) \<and>
   (isRedisEnabled (env s) \<longrightarrow>
      (\<forall>h. redis s = Some h \<longrightarrow>
         getRedis_checked_calls ok n s = (replicate n (Inr (Some h)), s)) \<and>
      (redis s = None \<longrightarrow>
         (\<exists>u. UPSTASH_REDIS_REST_URL (env s) = Some u \<and> u \<noteq> [] \<and>
            (if ok u
             then let h = \<lparr>serial = constructed s, url = UPSTASH_REDIS_REST_URL (env s),
                            token = UPSTASH_REDIS_REST_TOKEN (env s)\<rparr>
                  in getRedis_checked_calls ok (Suc n) s =
                       (replicate (Suc n) (Inr (Some h)),
                        s\<lparr>redis := Some h, constructed := constructed s + 1\<rparr>)
             else getRedis_checked_calls ok n s = (replicate n (Inl UrlError), s)))))"
proof (intro conjI impI allI)
  assume "\<not> USE_REDIS (env s)"
  then show "getRedis_checked_calls ok n s = (replicate n (Inr None), s)"
    by (rule checked_calls_disabled)
next
  assume "USE_REDIS (env s) \<and> \<not> isRedisEnabled (env s)"
  then show "getRedis_checked_calls ok n s =
      (replicate n (Inr None), s\<lparr>warnings := warnings s + n\<rparr>)"
    by (simp add: checked_calls_misconfigured)
next
  fix h
  assume "isRedisEnabled (env s)" "redis s = Some h"
  then show "getRedis_checked_calls ok n s = (replicate n (Inr (Some h)), s)"
    by (rule checked_calls_singleton)
next
  assume en: "isRedisEnabled (env s)" and none: "redis s = None"
  from en obtain u where u: "UPSTASH_REDIS_REST_URL (env s) = Some u" "u \<noteq> []"
    by (cases "UPSTASH_REDIS_REST_URL (env s)") (simp_all add: isRedisEnabled_def falsy_def)
  have "if ok u
        then let h = \<lparr>serial = constructed s, url = UPSTASH_REDIS_REST_URL (env s),
                       token = UPSTASH_REDIS_REST_TOKEN (env s)\<rparr>
             in getRedis_checked_calls ok (Suc n) s =
                  (replicate (Suc n) (Inr (Some h)),
                   s\<lparr>redis := Some h, constructed := constructed s + 1\<rparr>)
        else getRedis_checked_calls ok n s = (replicate n (Inl UrlError), s)"
  proof (cases "ok u")
    case True
    then show ?thesis
      unfolding Let_def using checked_calls_accepted [OF en none u(1), of ok n] by simp
  next
    case False
    then show ?thesis
      using checked_calls_rejected [OF en none u(1), of ok n] by simp
  qed
  with u show "\<exists>u. UPSTASH_REDIS_REST_URL (env s) = Some u \<and> u \<noteq> [] \<and>
      (if ok u
       then let h = \<lparr>serial = constructed s, url = UPSTASH_REDIS_REST_URL (env s),
                      token = UPSTASH_REDIS_REST_TOKEN (env s)\<rparr>
            in getRedis_checked_calls ok (Suc n) s =
                 (replicate (Suc n) (Inr (Some h)),
                  s\<lparr>redis := Some h, constructed := constructed s + 1\<rparr>)
       else getRedis_checked_calls ok n s = (replicate n (Inl UrlError), s))"
    by blast
qed

theorem getRedis_selector_witness:
  "getRedis_checked_calls secure 3 (boot env_off :: nat system) =
     ([Inr None, Inr None, Inr None], boot env_off) \<and>
   getRedis_checked_calls secure 3 (boot env_broken :: nat system) =
     ([Inr None, Inr None, Inr None], (boot env_broken :: nat system)\<lparr>warnings := 3\<rparr>) \<and>
   getRedis_checked_calls secure 3 (boot env_on :: nat system) =
     (replicate 3
        (Inr (Some \<lparr>serial = 0, url = Some ''https://db.upstash.io'', token = Some ''t''\<rparr>)),
      (boot env_on :: nat system)
        \<lparr>redis := Some \<lparr>serial = 0, url = Some ''https://db.upstash.io'', token = Some ''t''\<rparr>,
         constructed := 1\<rparr>) \<and>
   getRedis_checked_calls secure 3 (boot env_malformed :: nat system) =
     ([Inl UrlError, Inl UrlError, Inl UrlError], boot env_malformed)"
proof -
  have off: "\<not> USE_REDIS (env (boot env_off :: nat system))"
    by (simp add: boot_def env_off_def)
  have broken: "USE_REDIS (env (boot env_broken :: nat system)) \<and> \<not> isRedisEnabled (env (boot env_broken :: nat system))"
    by (simp add: boot_def env_broken_def isRedisEnabled_def falsy_def)
  have on: "isRedisEnabled (env (boot env_on :: nat system)) \<and> redis (boot env_on :: nat system) = None"
    by (simp add: boot_def env_on_def isRedisEnabled_def falsy_def)
  have mal: "isRedisEnabled (env (boot env_malformed :: nat system)) \<and> redis (boot env_malformed :: nat system) = None"
    by (simp add: boot_def env_malformed_def isRedisEnabled_def falsy_def)
  have 1: "getRedis_checked_calls secure 3 (boot env_off :: nat system) =
      (replicate 3 (Inr None), boot env_off)"
    using getRedis_selector [of "boot env_off :: nat system" secure 3] off by blast
  have 2: "getRedis_checked_calls secure 3 (boot env_broken :: nat system) =
      (replicate 3 (Inr None),
       (boot env_broken :: nat system)\<lparr>warnings := warnings (boot env_broken :: nat system) + 3\<rparr>)"
    using getRedis_selector [of "boot env_broken :: nat system" secure 3] broken by blast
  have 3: "getRedis_checked_calls secure (Suc 2) (boot env_on :: nat system) =
      (replicate (Suc 2)
         (Inr (Some \<lparr>serial = 0, url = Some ''https://db.upstash.io'', token = Some ''t''\<rparr>)),
       (boot env_on :: nat system)
         \<lparr>redis := Some \<lparr>serial = 0, url = Some ''https://db.upstash.io'', token = Some ''t''\<rparr>,
          constructed := 1\<rparr>)"
    using getRedis_selector [of "boot env_on :: nat system" secure 2] on
    by (simp add: boot_def env_on_def Let_def secure_def startsWith_def)
  have 4: "getRedis_checked_calls secure 3 (boot env_malformed :: nat system) =
      (replicate 3 (Inl UrlError), boot env_malformed)"
    using getRedis_selector [of "boot env_malformed :: nat system" secure 3] mal
    by (simp add: boot_def env_malformed_def secure_def startsWith_def)
  have w: "warnings (boot env_broken :: nat system) = 0"
    by (simp add: boot_def)
  have n: "Suc 2 = 3" by simp
  show ?thesis
    using 1 2 3 4 unfolding w n by (simp add: numeral_3_eq_3)
qed

text \<open>
  Against C8 as stated: two calls with the backend switched on and the URL missing log
  the warning twice, not once; and a call with the backend switched on, both
  credentials present and a URL that the constructor rejects throws.
\<close>

theorem getRedis_warns_every_call:
  "warnings (snd (getRedis_checked_calls secure 2 (boot env_broken :: nat system))) = 2 \<and>
   fst (getRedis_checked secure (boot env_malformed :: nat system)) = Inl UrlError"
  by (simp add: numeral_2_eq_2 getRedis_checked_def newRedis_def boot_def env_broken_def
        env_malformed_def falsy_def secure_def startsWith_def)

section \<open>The rate limiter\<close>

lemma windowEnd_inWindow:
  assumes "0 < w" "inWindow W w t"
  shows "windowEnd t w = (W + 1) * w"
proof -
  have "t div 1000 div w = t div (1000 * w)"
    using assms(1) by (simp add: zdiv_zmult2_eq)
  also have "\<dots> = W"
  proof -
    have "t = (1000 * w) * W + (t - 1000 * w * W)" by simp
    moreover have "0 \<le> t - 1000 * w * W" "t - 1000 * w * W < 1000 * w"
      using assms(2) by (simp_all add: inWindow_def algebra_simps)
    ultimately show ?thesis
      using int_div_pos_eq by blast
  qed
  finally show ?thesis by (simp add: windowEnd_def Let_def algebra_simps)
qed

lemma rateLimit_memory_path:
  "\<not> isRedisEnabled (env s) \<Longrightarrow>
    rateLimit s t0 t1 t2 identifier config =
      rateLimit_memory (snd (getRedis s)) t1 t2 (counterKey config identifier) config
        (windowEnd t0 (windowInSeconds config))"
  using getRedis_None [of s]
  by (auto simp: rateLimit_def Let_def split: prod.splits option.splits)

lemma rateLimit_redis_path:
  "isRedisEnabled (env s) \<Longrightarrow>
    rateLimit s t0 t1 t2 identifier config =
      rateLimit_redis (snd (getRedis s)) t1 (counterKey config identifier) config
        (windowEnd t0 (windowInSeconds config))"
  using getRedis_None [of s]
  by (auto simp: rateLimit_def Let_def split: prod.splits option.splits)

text \<open>The in-memory path, with no counter in force and with one.\<close>

lemma rateLimit_memory_fresh:
  assumes "memoryStore s k = None \<or> (\<exists>c. memoryStore s k = Some c \<and> (reset c < t1 \<or> reset c < t2))"
  shows "fst (rateLimit_memory s t1 t2 k config rst) =
           Inr \<lparr>success = True, remaining = limit config - 1, reset' = rst, limit' = limit config\<rparr>"
    and "memoryStore (snd (rateLimit_memory s t1 t2 k config rst)) k =
           Some \<lparr>count = 1, reset = rst * 1000\<rparr>"
    and "env (snd (rateLimit_memory s t1 t2 k config rst)) = env s"
    and "store (snd (rateLimit_memory s t1 t2 k config rst)) = store s"
  using assms
  by (auto simp: rateLimit_memory_def cleanupMemoryStore_def Let_def split: option.splits)

lemma rateLimit_memory_existing:
  assumes "memoryStore s k = Some c" "t1 \<le> reset c" "t2 \<le> reset c"
  shows "fst (rateLimit_memory s t1 t2 k config rst) =
           Inr (admission config (count c + 1) (reset c div 1000))"
    and "memoryStore (snd (rateLimit_memory s t1 t2 k config rst)) k =
           Some (c\<lparr>count := count c + 1\<rparr>)"
    and "env (snd (rateLimit_memory s t1 t2 k config rst)) = env s"
    and "store (snd (rateLimit_memory s t1 t2 k config rst)) = store s"
  using assms
  by (auto simp: rateLimit_memory_def cleanupMemoryStore_def admission_def Let_def
      split: option.splits)

text \<open>The durable path, with no visible counter and with one.\<close>

lemma rateLimit_redis_fresh:
  assumes "lookup (store s) t k = None"
  shows "fst (rateLimit_redis s t k config rst) = Inr (admission config 1 rst)"
    and "store (snd (rateLimit_redis s t k config rst)) k =
           Some \<lparr>payload = Integer 1, expireAt = Some (t + windowInSeconds config * 1000)\<rparr>"
    and "env (snd (rateLimit_redis s t k config rst)) = env s"
    and "memoryStore (snd (rateLimit_redis s t k config rst)) = memoryStore s"
  using assms
  by (auto simp: rateLimit_redis_def INCR_def EXPIRE_def lookup_def live_def admission_def
      Let_def split: option.splits)

lemma rateLimit_redis_existing:
  assumes "lookup (store s) t k = Some e" "payload e = Integer n"
  shows "fst (rateLimit_redis s t k config rst) = Inr (admission config (n + 1) rst)"
    and "store (snd (rateLimit_redis s t k config rst)) k =
           Some \<lparr>payload = Integer (n + 1), expireAt = Some (t + windowInSeconds config * 1000)\<rparr>"
    and "env (snd (rateLimit_redis s t k config rst)) = env s"
    and "memoryStore (snd (rateLimit_redis s t k config rst)) = memoryStore s"
  using assms
  by (auto simp: rateLimit_redis_def INCR_def EXPIRE_def lookup_def live_def admission_def
      Let_def split: option.splits if_splits)

text \<open>Successive calls against a counter that stays in force.\<close>

lemma rateLimit_calls_Cons:
  "rateLimit_calls s (c # ts) identifier config =
     (fst (rateLimit s (fst c) (fst (snd c)) (snd (snd c)) identifier config) #
        fst (rateLimit_calls
               (snd (rateLimit s (fst c) (fst (snd c)) (snd (snd c)) identifier config))
               ts identifier config),
      snd (rateLimit_calls
             (snd (rateLimit s (fst c) (fst (snd c)) (snd (snd c)) identifier config))
             ts identifier config))"
  by (cases c) (simp add: Let_def split: prod.splits)

lemma calls_memory_existing:
  assumes "\<not> isRedisEnabled (env s)"
    and "memoryStore s (counterKey config identifier) = Some c"
    and "\<forall>x \<in> set ts. fst (snd x) \<le> reset c \<and> snd (snd x) \<le> reset c"
  shows "fst (rateLimit_calls s ts identifier config) =
           map (\<lambda>i. Inr (admission config (count c + 1 + int i) (reset c div 1000)))
             [0..<length ts] \<and>
         memoryStore (snd (rateLimit_calls s ts identifier config))
             (counterKey config identifier) =
           Some (c\<lparr>count := count c + int (length ts)\<rparr>) \<and>
         env (snd (rateLimit_calls s ts identifier config)) = env s"
  using assms
proof (induction ts arbitrary: s c)
  case Nil
  then show ?case by simp
next
  case (Cons x ts)
  let ?k = "counterKey config identifier"
  let ?r = "rateLimit s (fst x) (fst (snd x)) (snd (snd x)) identifier config"
  let ?c = "c\<lparr>count := count c + 1\<rparr>"
  have path: "?r = rateLimit_memory (snd (getRedis s)) (fst (snd x)) (snd (snd x)) ?k config
      (windowEnd (fst x) (windowInSeconds config))"
    using Cons.prems(1) by (rule rateLimit_memory_path)
  have pre: "memoryStore (snd (getRedis s)) ?k = Some c"
    "fst (snd x) \<le> reset c" "snd (snd x) \<le> reset c"
    using Cons.prems by simp_all
  have res: "fst ?r = Inr (admission config (count c + 1) (reset c div 1000))"
    and st: "memoryStore (snd ?r) ?k = Some ?c"
    and en: "env (snd ?r) = env s"
    unfolding path using rateLimit_memory_existing [OF pre] by simp_all
  have ih: "fst (rateLimit_calls (snd ?r) ts identifier config) =
           map (\<lambda>i. Inr (admission config (count ?c + 1 + int i) (reset ?c div 1000)))
             [0..<length ts] \<and>
         memoryStore (snd (rateLimit_calls (snd ?r) ts identifier config)) ?k =
           Some (?c\<lparr>count := count ?c + int (length ts)\<rparr>) \<and>
         env (snd (rateLimit_calls (snd ?r) ts identifier config)) = env (snd ?r)"
    using Cons.prems(1,3) st en by (intro Cons.IH) simp_all
  have shift: "map (\<lambda>i. Inr (admission config (count c + 1 + int i) (reset c div 1000)))
             [0..<length (x # ts)] =
      Inr (admission config (count c + 1) (reset c div 1000)) #
      map (\<lambda>i. Inr (admission config (count ?c + 1 + int i) (reset ?c div 1000)))
             [0..<length ts]"
    by (simp add: map_upt_Suc add.assoc del: upt_Suc)
  show ?case
    unfolding rateLimit_calls_Cons shift using res ih en by (simp add: add.assoc)
qed

lemma calls_redis_existing:
  assumes "isRedisEnabled (env s)"
    and "store s (counterKey config identifier) = Some e"
    and "payload e = Integer n"
    and "\<forall>x \<in> set ts. live e (fst (snd x)) \<and> lo \<le> fst (snd x) \<and>
           fst (snd x) < lo + windowInSeconds config * 1000"
  shows "fst (rateLimit_calls s ts identifier config) =
           map (\<lambda>(i, x). Inr (admission config (n + 1 + int i)
                  (windowEnd (fst x) (windowInSeconds config))))
             (zip [0..<length ts] ts) \<and>
         (\<exists>e'. store (snd (rateLimit_calls s ts identifier config))
                 (counterKey config identifier) = Some e' \<and>
               payload e' = Integer (n + int (length ts))) \<and>
         env (snd (rateLimit_calls s ts identifier config)) = env s"
  using assms
proof (induction ts arbitrary: s e n)
  case Nil
  then show ?case by simp
next
  case (Cons x ts)
  let ?k = "counterKey config identifier"
  let ?w = "windowInSeconds config"
  let ?r = "rateLimit s (fst x) (fst (snd x)) (snd (snd x)) identifier config"
  let ?e = "\<lparr>payload = Integer (n + 1), expireAt = Some (fst (snd x) + ?w * 1000)\<rparr>"
  have path: "?r = rateLimit_redis (snd (getRedis s)) (fst (snd x)) ?k config
      (windowEnd (fst x) ?w)"
    using Cons.prems(1) by (rule rateLimit_redis_path)
  have pre: "lookup (store (snd (getRedis s))) (fst (snd x)) ?k = Some e"
    using Cons.prems(2,4) by (simp add: lookup_def)
  have res: "fst ?r = Inr (admission config (n + 1) (windowEnd (fst x) ?w))"
    and st: "store (snd ?r) ?k = Some ?e"
    and en: "env (snd ?r) = env s"
    unfolding path using rateLimit_redis_existing [OF pre Cons.prems(3)] by simp_all
  have later: "\<forall>y \<in> set ts. live ?e (fst (snd y)) \<and> lo \<le> fst (snd y) \<and>
           fst (snd y) < lo + ?w * 1000"
    using Cons.prems(4) by (auto simp: live_def)
  have ih: "fst (rateLimit_calls (snd ?r) ts identifier config) =
           map (\<lambda>(i, x). Inr (admission config (n + 1 + 1 + int i) (windowEnd (fst x) ?w)))
             (zip [0..<length ts] ts) \<and>
         (\<exists>e'. store (snd (rateLimit_calls (snd ?r) ts identifier config)) ?k = Some e' \<and>
               payload e' = Integer (n + 1 + int (length ts))) \<and>
         env (snd (rateLimit_calls (snd ?r) ts identifier config)) = env (snd ?r)"
    using Cons.prems(1) st en later Cons.IH [of "snd ?r" ?e "n + 1"] by simp
  have shift: "map (\<lambda>(i, x). Inr (admission config (n + 1 + int i) (windowEnd (fst x) ?w)))
             (zip [0..<length (x # ts)] (x # ts)) =
      Inr (admission config (n + 1) (windowEnd (fst x) ?w)) #
      map (\<lambda>(i, x). Inr (admission config (n + 1 + 1 + int i) (windowEnd (fst x) ?w)))
             (zip [0..<length ts] ts)"
  proof -
    have "[0..<length (x # ts)] = 0 # map Suc [0..<length ts]"
      by (simp add: upt_conv_Cons map_Suc_upt del: upt_Suc)
    then show ?thesis
      by (simp add: zip_map1 case_prod_unfold add.assoc del: upt_Suc)
  qed
  show ?case
    unfolding rateLimit_calls_Cons shift using res ih en by (simp add: add.assoc)
qed

lemma six_calls:
  assumes "length (ts :: 'a list) = 6"
  obtains x ys where "ts = x # ys" "length ys = 5"
  using assms by (cases ts) simp_all

lemma five_results:
  assumes "length (ys :: 'a list) = 5"
  shows "map f (zip [0..<length ys] ys) =
    [f (0, ys ! 0), f (1, ys ! 1), f (2, ys ! 2), f (3, ys ! 3), f (4, ys ! 4)]"
proof -
  obtain a b c d e where "ys = [a, b, c, d, e]"
    using assms by (auto simp: length_Suc_conv numeral_eq_Suc)
  then show ?thesis by (simp add: upt_rec eval_nat_numeral)
qed

text \<open>
  C1. Under a policy of 5 requests per 60 seconds, six calls for an identifier that has
  no counter, all lying in one fixed window, are answered in turn with success and 4,
  3, 2, 1, 0 remaining and then with refusal and 0 remaining, whichever backend the
  environment selects.
\<close>

theorem rateLimit_admission:
  assumes lim: "limit config = 5" and win: "windowInSeconds config = 60"
    and fresh_memory: "memoryStore s (counterKey config identifier) = None"
    and fresh_store: "store s (counterKey config identifier) = None"
    and six: "length ts = 6"
    and same: "\<forall>x \<in> set ts. callInWindow W 60 x"
  shows "map (map_sum id (\<lambda>r. (success r, remaining r)))
           (fst (rateLimit_calls s ts identifier config)) =
         [Inr (True, 4), Inr (True, 3), Inr (True, 2), Inr (True, 1), Inr (True, 0),
          Inr (False, 0)]"
proof -
  let ?k = "counterKey config identifier"
  obtain x ys where ts: "ts = x # ys" and five: "length ys = 5"
    using six by (rule six_calls)
  let ?r = "rateLimit s (fst x) (fst (snd x)) (snd (snd x)) identifier config"
  have x: "inWindow W 60 (fst x)" "inWindow W 60 (fst (snd x))" "inWindow W 60 (snd (snd x))"
    using same ts by (auto simp: callInWindow_def split: prod.splits)
  have ys: "\<forall>y \<in> set ys. inWindow W 60 (fst (snd y)) \<and> inWindow W 60 (snd (snd y))"
    using same ts by (auto simp: callInWindow_def split: prod.splits)
  have rst: "windowEnd (fst x) (windowInSeconds config) = (W + 1) * 60"
    using windowEnd_inWindow [of 60 W "fst x"] x(1) win by simp
  show ?thesis
  proof (cases "isRedisEnabled (env s)")
    case False
    let ?c = "\<lparr>count = 1, reset = (W + 1) * 60 * 1000\<rparr>"
    have path: "?r = rateLimit_memory (snd (getRedis s)) (fst (snd x)) (snd (snd x)) ?k config
        ((W + 1) * 60)"
      using rateLimit_memory_path [OF False] rst by simp
    have pre: "memoryStore (snd (getRedis s)) ?k = None \<or>
        (\<exists>c. memoryStore (snd (getRedis s)) ?k = Some c \<and>
           (reset c < fst (snd x) \<or> reset c < snd (snd x)))"
      using fresh_memory by simp
    have first: "fst ?r = Inr \<lparr>success = True, remaining = limit config - 1,
        reset' = (W + 1) * 60, limit' = limit config\<rparr>"
      and st: "memoryStore (snd ?r) ?k = Some ?c"
      and en: "env (snd ?r) = env s"
      unfolding path using rateLimit_memory_fresh [OF pre] by simp_all
    have inforce: "\<forall>y \<in> set ys. fst (snd y) \<le> reset ?c \<and> snd (snd y) \<le> reset ?c"
      using ys by (auto simp: inWindow_def)
    have rest: "fst (rateLimit_calls (snd ?r) ys identifier config) =
        map (\<lambda>i. Inr (admission config (count ?c + 1 + int i) (reset ?c div 1000)))
          [0..<length ys]"
      using calls_memory_existing [OF _ st inforce] False en by simp
    show ?thesis
      unfolding ts rateLimit_calls_Cons
      by (simp add: first rest five lim admission_def upt_rec)
  next
    case True
    let ?e = "\<lparr>payload = Integer 1, expireAt = Some (fst (snd x) + 60 * 1000)\<rparr>"
    have path: "?r = rateLimit_redis (snd (getRedis s)) (fst (snd x)) ?k config
        ((W + 1) * 60)"
      using rateLimit_redis_path [OF True] rst by simp
    have pre: "lookup (store (snd (getRedis s))) (fst (snd x)) ?k = None"
      using fresh_store by (simp add: lookup_def)
    have first: "fst ?r = Inr (admission config 1 ((W + 1) * 60))"
      and st: "store (snd ?r) ?k = Some ?e"
      and en: "env (snd ?r) = env s"
      unfolding path using rateLimit_redis_fresh [OF pre] win by simp_all
    have inforce: "\<forall>y \<in> set ys. live ?e (fst (snd y)) \<and> W * 60 * 1000 \<le> fst (snd y) \<and>
        fst (snd y) < W * 60 * 1000 + windowInSeconds config * 1000"
      using ys x(2) win by (auto simp: inWindow_def live_def)
    have rest: "fst (rateLimit_calls (snd ?r) ys identifier config) =
        map (\<lambda>(i, x). Inr (admission config (1 + 1 + int i)
                  (windowEnd (fst x) (windowInSeconds config))))
             (zip [0..<length ys] ys)"
      using calls_redis_existing [OF _ st _ inforce] True en by simp
    show ?thesis
      unfolding ts rateLimit_calls_Cons rest five_results [OF five]
      by (simp add: first lim admission_def)
  qed
qed

theorem rateLimit_admission_witness:
  "map (map_sum id (\<lambda>r. (success r, remaining r)))
     (fst (rateLimit_calls (boot env_off :: nat system) six_calls_in_a_minute ''1.2.3.4''
        reservation)) =
   [Inr (True, 4), Inr (True, 3), Inr (True, 2), Inr (True, 1), Inr (True, 0),
    Inr (False, 0)] \<and>
   map (map_sum id (\<lambda>r. (success r, remaining r)))
     (fst (rateLimit_calls (boot env_on :: nat system) six_calls_in_a_minute ''1.2.3.4''
        reservation)) =
   [Inr (True, 4), Inr (True, 3), Inr (True, 2), Inr (True, 1), Inr (True, 0),
    Inr (False, 0)]"
proof -
  have policy: "limit reservation = 5" "windowInSeconds reservation = 60"
    by (simp_all add: reservation_def)
  have fresh: "memoryStore (boot e :: nat system) k = None" "store (boot e :: nat system) k = None"
    for e k
    by (simp_all add: boot_def)
  have six: "length six_calls_in_a_minute = 6"
    by (simp add: six_calls_in_a_minute_def)
  have same: "\<forall>x \<in> set six_calls_in_a_minute. callInWindow 0 60 x"
    by (simp add: six_calls_in_a_minute_def callInWindow_def inWindow_def)
  show ?thesis
    using rateLimit_admission [of reservation "boot env_off :: nat system" "''1.2.3.4''"
        six_calls_in_a_minute 0]
      rateLimit_admission [of reservation "boot env_on :: nat system" "''1.2.3.4''"
        six_calls_in_a_minute 0]
      policy fresh six same
    by simp
qed

lemma zip_upt_map: "map (\<lambda>(i, x). g i) (zip [0..<length ts] ts) = map g [0..<length ts]"
proof -
  have "map (\<lambda>(i, x). g i) (zip [0..<length ts] ts) = map g (map fst (zip [0..<length ts] ts))"
    unfolding case_prod_unfold by (simp only: map_map comp_def)
  also have "map fst (zip [0..<length ts] ts) = [0..<length ts]"
    by (rule map_fst_zip) simp
  finally show ?thesis .
qed

lemma calls_memory_window:
  fixes s :: "'v system"
  assumes off: "\<not> isRedisEnabled (env s)"
    and w: "0 < windowInSeconds config"
    and l: "0 < limit config"
    and ne: "ts \<noteq> []"
    and calls: "\<forall>x \<in> set ts. callInWindow W (windowInSeconds config) x"
    and counter: "(n = 0 \<and> memoryStore s (counterKey config identifier) = None) \<or>
        memoryStore s (counterKey config identifier) =
          Some \<lparr>count = n, reset = (W + 1) * windowInSeconds config * 1000\<rparr>"
  shows "map (map_sum id success) (fst (rateLimit_calls s ts identifier config)) =
           map (\<lambda>i. Inr (n + 1 + int i \<le> limit config)) [0..<length ts] \<and>
         storedCount (snd (rateLimit_calls s ts identifier config))
             (counterKey config identifier) = Some (n + int (length ts))"
proof -
  let ?k = "counterKey config identifier"
  let ?w = "windowInSeconds config"
  let ?c = "\<lparr>count = n, reset = (W + 1) * ?w * 1000\<rparr>"
  have readings: "\<forall>x \<in> set ts. fst (snd x) \<le> reset ?c \<and> snd (snd x) \<le> reset ?c"
    using calls by (auto simp: callInWindow_def inWindow_def split: prod.splits)
  have existing: "map (map_sum id success) (fst (rateLimit_calls s' ts' identifier config)) =
        map (\<lambda>i. Inr (m + 1 + int i \<le> limit config)) [0..<length ts'] \<and>
      storedCount (snd (rateLimit_calls s' ts' identifier config)) ?k =
        Some (m + int (length ts'))"
    if "env s' = env s" "memoryStore s' ?k = Some \<lparr>count = m, reset = (W + 1) * ?w * 1000\<rparr>"
      "set ts' \<subseteq> set ts" for s' :: "'v system" and ts' m
  proof -
    have "\<forall>x \<in> set ts'. fst (snd x) \<le> reset \<lparr>count = m, reset = (W + 1) * ?w * 1000\<rparr> \<and>
        snd (snd x) \<le> reset \<lparr>count = m, reset = (W + 1) * ?w * 1000\<rparr>"
      using readings that(3) by auto
    from calls_memory_existing [OF _ that(2) this] off that(1)
    show ?thesis
      by (simp add: storedCount_def admission_def comp_def)
  qed
  from counter show ?thesis
  proof
    assume fresh: "n = 0 \<and> memoryStore s ?k = None"
    obtain x ys where ts: "ts = x # ys"
      using ne by (cases ts) auto
    let ?r = "rateLimit s (fst x) (fst (snd x)) (snd (snd x)) identifier config"
    have "inWindow W ?w (fst x)"
      using calls ts by (auto simp: callInWindow_def split: prod.splits)
    then have rst: "windowEnd (fst x) ?w = (W + 1) * ?w"
      using windowEnd_inWindow w by blast
    have path: "?r = rateLimit_memory (snd (getRedis s)) (fst (snd x)) (snd (snd x)) ?k config
        ((W + 1) * ?w)"
      using rateLimit_memory_path [OF off] rst by simp
    have pre: "memoryStore (snd (getRedis s)) ?k = None \<or>
        (\<exists>c. memoryStore (snd (getRedis s)) ?k = Some c \<and>
           (reset c < fst (snd x) \<or> reset c < snd (snd x)))"
      using fresh by simp
    have first: "map_sum id success (fst ?r) = Inr True"
      and st: "memoryStore (snd ?r) ?k = Some \<lparr>count = 1, reset = (W + 1) * ?w * 1000\<rparr>"
      and en: "env (snd ?r) = env s"
      unfolding path using rateLimit_memory_fresh [OF pre] by simp_all
    have rest: "map (map_sum id success) (fst (rateLimit_calls (snd ?r) ys identifier config)) =
        map (\<lambda>i. Inr (1 + 1 + int i \<le> limit config)) [0..<length ys] \<and>
      storedCount (snd (rateLimit_calls (snd ?r) ys identifier config)) ?k =
        Some (1 + int (length ys))"
      using existing [OF en st] ts by auto
    have shift: "map (\<lambda>i. Inr (n + 1 + int i \<le> limit config)) [0..<length (x # ys)] =
        Inr (1 \<le> limit config) # map (\<lambda>i. Inr (1 + 1 + int i \<le> limit config)) [0..<length ys]"
      using fresh by (simp add: map_upt_Suc add.assoc del: upt_Suc)
    show ?thesis
      unfolding ts rateLimit_calls_Cons shift using first rest fresh l by simp
  next
    assume "memoryStore s ?k = Some ?c"
    from existing [OF refl this subset_refl] show ?thesis .
  qed
qed

lemma calls_redis_window:
  fixes s :: "'v system"
  assumes on: "isRedisEnabled (env s)"
    and w: "0 < windowInSeconds config"
    and ne: "ts \<noteq> []"
    and calls: "\<forall>x \<in> set ts. callInWindow W (windowInSeconds config) x"
    and counter:
      "(n = 0 \<and> lookup (store s) (fst (snd (hd ts))) (counterKey config identifier) = None) \<or>
       (\<exists>e. lookup (store s) (fst (snd (hd ts))) (counterKey config identifier) = Some e \<and>
            payload e = Integer n)"
  shows "map (map_sum id success) (fst (rateLimit_calls s ts identifier config)) =
           map (\<lambda>i. Inr (n + 1 + int i \<le> limit config)) [0..<length ts] \<and>
         storedCount (snd (rateLimit_calls s ts identifier config))
             (counterKey config identifier) = Some (n + int (length ts))"
proof -
  let ?k = "counterKey config identifier"
  let ?w = "windowInSeconds config"
  obtain x ys where ts: "ts = x # ys"
    using ne by (cases ts) auto
  let ?r = "rateLimit s (fst x) (fst (snd x)) (snd (snd x)) identifier config"
  let ?e = "\<lparr>payload = Integer (n + 1), expireAt = Some (fst (snd x) + ?w * 1000)\<rparr>"
  have path: "?r = rateLimit_redis (snd (getRedis s)) (fst (snd x)) ?k config
      (windowEnd (fst x) ?w)"
    using on by (rule rateLimit_redis_path)
  have first: "map_sum id success (fst ?r) = Inr (n + 1 \<le> limit config)"
    and st: "store (snd ?r) ?k = Some ?e"
    and en: "env (snd ?r) = env s"
    unfolding path
    using counter rateLimit_redis_fresh [of "snd (getRedis s)" "fst (snd x)" ?k config]
      rateLimit_redis_existing [of "snd (getRedis s)" "fst (snd x)" ?k _ n config]
    by (auto simp: ts admission_def)
  have x: "inWindow W ?w (fst (snd x))"
    using calls ts by (auto simp: callInWindow_def split: prod.splits)
  have later: "\<forall>y \<in> set ys. live ?e (fst (snd y)) \<and> W * ?w * 1000 \<le> fst (snd y) \<and>
        fst (snd y) < W * ?w * 1000 + ?w * 1000"
    using calls x unfolding ts
    by (auto simp: callInWindow_def inWindow_def live_def algebra_simps split: prod.splits)
  have rest: "fst (rateLimit_calls (snd ?r) ys identifier config) =
           map (\<lambda>(i, x). Inr (admission config (n + 1 + 1 + int i) (windowEnd (fst x) ?w)))
             (zip [0..<length ys] ys) \<and>
         (\<exists>e'. store (snd (rateLimit_calls (snd ?r) ys identifier config)) ?k = Some e' \<and>
               payload e' = Integer (n + 1 + int (length ys))) \<and>
         env (snd (rateLimit_calls (snd ?r) ys identifier config)) = env (snd ?r)"
    using calls_redis_existing [OF _ st _ later] on en by simp
  have results: "map (map_sum id success) (fst (rateLimit_calls (snd ?r) ys identifier config)) =
      map (\<lambda>i. Inr (n + 1 + 1 + int i \<le> limit config)) [0..<length ys]"
  proof -
    have "map (map_sum id success) (fst (rateLimit_calls (snd ?r) ys identifier config)) =
        map (\<lambda>(i, x). Inr (n + 1 + 1 + int i \<le> limit config)) (zip [0..<length ys] ys)"
      using rest by (simp add: admission_def comp_def case_prod_unfold)
    then show ?thesis by (simp only: zip_upt_map)
  qed
  have stored: "storedCount (snd (rateLimit_calls (snd ?r) ys identifier config)) ?k =
      Some (n + 1 + int (length ys))"
    using rest on en by (auto simp: storedCount_def)
  have shift: "map (\<lambda>i. Inr (n + 1 + int i \<le> limit config)) [0..<length (x # ys)] =
      Inr (n + 1 \<le> limit config) #
        map (\<lambda>i. Inr (n + 1 + 1 + int i \<le> limit config)) [0..<length ys]"
    by (simp add: map_upt_Suc add.assoc del: upt_Suc)
  show ?thesis
    unfolding ts rateLimit_calls_Cons shift using first results stored by simp
qed

text \<open>
  C4. Take a policy with a positive limit and window, an identifier whose counter stands
  at \<open>n\<close> in the fixed window \<open>W\<close> (or which has no counter, \<open>n = 0\<close>), and any
  calls that lie in that window. Each call is judged against a count one above that of
  the call before it, admitted or not, and after the calls the stored count is \<open>n\<close> plus
  their number. With \<open>n\<close> at or over the limit, every one of the calls is refused.
\<close>

theorem rateLimit_counts_every_call:
  fixes s :: "'v system"
  assumes "0 < limit config" and "0 < windowInSeconds config"
    and "ts \<noteq> []"
    and "\<forall>x \<in> set ts. callInWindow W (windowInSeconds config) x"
    and "if isRedisEnabled (env s)
         then (n = 0 \<and>
                 lookup (store s) (fst (snd (hd ts))) (counterKey config identifier) = None) \<or>
              (\<exists>e. lookup (store s) (fst (snd (hd ts))) (counterKey config identifier) = Some e \<and>
                   payload e = Integer n)
         else (n = 0 \<and> memoryStore s (counterKey config identifier) = None) \<or>
              memoryStore s (counterKey config identifier) =
                Some \<lparr>count = n, reset = (W + 1) * windowInSeconds config * 1000\<rparr>"
  shows "map (map_sum id success) (fst (rateLimit_calls s ts identifier config)) =
           map (\<lambda>i. Inr (n + 1 + int i \<le> limit config)) [0..<length ts] \<and>
         storedCount (snd (rateLimit_calls s ts identifier config))
             (counterKey config identifier) = Some (n + int (length ts)) \<and>
         (limit config \<le> n \<longrightarrow>
            map (map_sum id success) (fst (rateLimit_calls s ts identifier config)) =
              replicate (length ts) (Inr False))"
proof -
  have main: "map (map_sum id success) (fst (rateLimit_calls s ts identifier config)) =
           map (\<lambda>i. Inr (n + 1 + int i \<le> limit config)) [0..<length ts] \<and>
         storedCount (snd (rateLimit_calls s ts identifier config))
             (counterKey config identifier) = Some (n + int (length ts))"
  proof (cases "isRedisEnabled (env s)")
    case True
    with assms show ?thesis by (intro calls_redis_window) simp_all
  next
    case False
    with assms show ?thesis by (intro calls_memory_window) simp_all
  qed
  have "map (\<lambda>i. Inr (n + 1 + int i \<le> limit config)) [0..<length ts] =
      replicate (length ts) (Inr False :: error + bool)" if "limit config \<le> n"
  proof -
    have "(\<lambda>i. (Inr (n + 1 + int i \<le> limit config) :: error + bool)) = (\<lambda>i. Inr False)"
      using that by auto
    then show ?thesis by (simp add: map_replicate_const)
  qed
  with main show ?thesis by simp
qed

theorem rateLimit_counts_every_call_witness:
  "map (map_sum id success)
     (fst (rateLimit_calls spent_memory [(30000, 30000, 30001), (59000, 59001, 59001)]
        ''1.2.3.4'' reservation)) = [Inr False, Inr False] \<and>
   storedCount
     (snd (rateLimit_calls spent_memory [(30000, 30000, 30001), (59000, 59001, 59001)]
        ''1.2.3.4'' reservation)) ''rl:1.2.3.4'' = Some 7 \<and>
   map (map_sum id success)
     (fst (rateLimit_calls spent_store [(30000, 30000, 30001), (59000, 59001, 59001)]
        ''1.2.3.4'' reservation)) = [Inr False, Inr False] \<and>
   storedCount
     (snd (rateLimit_calls spent_store [(30000, 30000, 30001), (59000, 59001, 59001)]
        ''1.2.3.4'' reservation)) ''rl:1.2.3.4'' = Some 7"
proof -
  let ?ts = "[(30000, 30000, 30001), (59000, 59001, 59001)] :: (int \<times> int \<times> int) list"
  have policy: "0 < limit reservation" "0 < windowInSeconds reservation"
    "limit reservation \<le> 5"
    by (simp_all add: reservation_def)
  have key: "counterKey reservation ''1.2.3.4'' = ''rl:1.2.3.4''"
    by (simp add: counterKey_def reservation_def dflt_def fullKey_def)
  have calls: "\<forall>x \<in> set ?ts. callInWindow 0 (windowInSeconds reservation) x"
    by (simp add: callInWindow_def inWindow_def reservation_def)
  have memory: "\<not> isRedisEnabled (env spent_memory)"
    "memoryStore spent_memory ''rl:1.2.3.4'' =
       Some \<lparr>count = 5, reset = (0 + 1) * windowInSeconds reservation * 1000\<rparr>"
    by (simp_all add: spent_memory_def boot_def env_off_def isRedisEnabled_def reservation_def)
  have durable: "isRedisEnabled (env spent_store)"
    "\<exists>e. lookup (store spent_store) (fst (snd (hd ?ts))) ''rl:1.2.3.4'' = Some e \<and>
         payload e = Integer 5"
    by (simp_all add: spent_store_def boot_def env_on_def isRedisEnabled_def falsy_def
        lookup_def live_def)
  show ?thesis
    using rateLimit_counts_every_call [of reservation ?ts 0 spent_memory 5 "''1.2.3.4''"]
      rateLimit_counts_every_call [of reservation ?ts 0 spent_store 5 "''1.2.3.4''"]
      policy calls memory durable
    unfolding key
    by (simp add: upt_rec)
qed

text \<open>Every call on the durable path leaves the key with the expiry renewed.\<close>

lemma rateLimit_redis_expiry:
  "map_option expireAt (store (snd (rateLimit_redis s t k config rst)) k) =
     Some (Some (t + windowInSeconds config * 1000))"
  by (auto simp: rateLimit_redis_def INCR_def EXPIRE_def lookup_def live_def Let_def
      split: option.splits payload.splits if_splits)

text \<open>
  C5, as the code has it. Each call on the durable backend leaves the entry of the
  counter with its expiry set to \<open>windowInSeconds\<close> seconds after the instant at which
  the store executes the call. Under a policy with a positive limit, a call starts a
  fresh counter, and is admitted with \<open>limit - 1\<close> remaining, whatever the old count was:
  on the in-memory backend when the instant \<open>reset\<close> of the identifier's counter lies
  strictly before the clock reading of the call, and the counter it leaves has the
  count 1 and, as \<open>reset\<close>, the end of the fixed window of the call; on the durable
  backend when the counter's entry has expired, and the entry it leaves has the count 1
  and the expiry just said.
\<close>

theorem rateLimit_window_reset:
  fixes s :: "'v system"
  shows "(isRedisEnabled (env s) \<longrightarrow>
            map_option expireAt
              (store (snd (rateLimit s t0 t1 t2 identifier config))
                 (counterKey config identifier)) =
              Some (Some (t1 + windowInSeconds config * 1000))) \<and>
         (0 < limit config \<and>
          (if isRedisEnabled (env s)
           then \<exists>e x. store s (counterKey config identifier) = Some e \<and>
                  expireAt e = Some x \<and> x \<le> t1
           else \<exists>c. memoryStore s (counterKey config identifier) = Some c \<and> reset c < t2) \<longrightarrow>
            map_sum id (\<lambda>r. (success r, remaining r))
              (fst (rateLimit s t0 t1 t2 identifier config)) = Inr (True, limit config - 1) \<and>
            storedCount (snd (rateLimit s t0 t1 t2 identifier config))
              (counterKey config identifier) = Some 1 \<and>
            (if isRedisEnabled (env s)
             then store (snd (rateLimit s t0 t1 t2 identifier config))
                    (counterKey config identifier) =
                  Some \<lparr>payload = Integer 1,
                        expireAt = Some (t1 + windowInSeconds config * 1000)\<rparr>
             else memoryStore (snd (rateLimit s t0 t1 t2 identifier config))
                    (counterKey config identifier) =
                  Some \<lparr>count = 1,
                        reset = windowEnd t0 (windowInSeconds config) * 1000\<rparr>))"
proof (cases "isRedisEnabled (env s)")
  case True
  let ?k = "counterKey config identifier"
  have renewed: "map_option expireAt (store (snd (rateLimit s t0 t1 t2 identifier config)) ?k) =
      Some (Some (t1 + windowInSeconds config * 1000))"
    using True by (simp add: rateLimit_redis_path rateLimit_redis_expiry)
  have fresh: "map_sum id (\<lambda>r. (success r, remaining r))
        (fst (rateLimit s t0 t1 t2 identifier config)) = Inr (True, limit config - 1) \<and>
      storedCount (snd (rateLimit s t0 t1 t2 identifier config)) ?k = Some 1 \<and>
      store (snd (rateLimit s t0 t1 t2 identifier config)) ?k =
        Some \<lparr>payload = Integer 1, expireAt = Some (t1 + windowInSeconds config * 1000)\<rparr>"
    if "0 < limit config"
      and "\<exists>e x. store s ?k = Some e \<and> expireAt e = Some x \<and> x \<le> t1"
  proof -
    have "lookup (store (snd (getRedis s))) t1 ?k = None"
      using that(2) by (auto simp: lookup_def live_def)
    from rateLimit_redis_fresh [OF this, of config "windowEnd t0 (windowInSeconds config)"]
    show ?thesis
      using True that(1)
      by (simp add: rateLimit_redis_path storedCount_def admission_def)
  qed
  from True renewed fresh show ?thesis by simp
next
  case False
  let ?k = "counterKey config identifier"
  have fresh: "map_sum id (\<lambda>r. (success r, remaining r))
        (fst (rateLimit s t0 t1 t2 identifier config)) = Inr (True, limit config - 1) \<and>
      storedCount (snd (rateLimit s t0 t1 t2 identifier config)) ?k = Some 1 \<and>
      memoryStore (snd (rateLimit s t0 t1 t2 identifier config)) ?k =
        Some \<lparr>count = 1, reset = windowEnd t0 (windowInSeconds config) * 1000\<rparr>"
    if "\<exists>c. memoryStore s ?k = Some c \<and> reset c < t2"
  proof -
    have "memoryStore (snd (getRedis s)) ?k = None \<or>
        (\<exists>c. memoryStore (snd (getRedis s)) ?k = Some c \<and> (reset c < t1 \<or> reset c < t2))"
      using that by auto
    from rateLimit_memory_fresh [OF this, of config "windowEnd t0 (windowInSeconds config)"]
    show ?thesis
      using False by (simp add: rateLimit_memory_path storedCount_def)
  qed
  from False fresh show ?thesis by simp
qed

theorem rateLimit_window_reset_witness:
  "map_sum id (\<lambda>r. (success r, remaining r))
     (fst (rateLimit spent_memory 61000 61001 61001 ''1.2.3.4'' reservation)) = Inr (True, 4) \<and>
   storedCount (snd (rateLimit spent_memory 61000 61001 61001 ''1.2.3.4'' reservation))
     ''rl:1.2.3.4'' = Some 1 \<and>
   memoryStore (snd (rateLimit spent_memory 61000 61001 61001 ''1.2.3.4'' reservation))
     ''rl:1.2.3.4'' = Some \<lparr>count = 1, reset = 120000\<rparr> \<and>
   map_sum id (\<lambda>r. (success r, remaining r))
     (fst (rateLimit spent_store 61000 61001 61001 ''1.2.3.4'' reservation)) = Inr (True, 4) \<and>
   storedCount (snd (rateLimit spent_store 61000 61001 61001 ''1.2.3.4'' reservation))
     ''rl:1.2.3.4'' = Some 1 \<and>
   store (snd (rateLimit spent_store 61000 61001 61001 ''1.2.3.4'' reservation))
     ''rl:1.2.3.4'' = Some \<lparr>payload = Integer 1, expireAt = Some 121001\<rparr> \<and>
   map_option expireAt
     (store (snd (rateLimit spent_store 30000 30001 30001 ''1.2.3.4'' reservation))
        ''rl:1.2.3.4'') = Some (Some 90001)"
proof -
  have policy: "0 < limit reservation" "limit reservation - 1 = 4"
    "windowInSeconds reservation = 60"
    by (simp_all add: reservation_def)
  have key: "counterKey reservation ''1.2.3.4'' = ''rl:1.2.3.4''"
    by (simp add: counterKey_def reservation_def dflt_def fullKey_def)
  have window: "windowEnd 61000 60 = 120"
    by (simp add: windowEnd_def)
  have memory: "\<not> isRedisEnabled (env spent_memory)"
    "\<exists>c. memoryStore spent_memory ''rl:1.2.3.4'' = Some c \<and> reset c < 61001"
    by (simp_all add: spent_memory_def boot_def env_off_def isRedisEnabled_def)
  have durable: "isRedisEnabled (env spent_store)"
    "\<exists>e x. store spent_store ''rl:1.2.3.4'' = Some e \<and> expireAt e = Some x \<and> x \<le> 61001"
    by (simp_all add: spent_store_def boot_def env_on_def isRedisEnabled_def falsy_def)
  show ?thesis
    using rateLimit_window_reset [of spent_memory 61000 61001 61001 "''1.2.3.4''" reservation]
      rateLimit_window_reset [of spent_store 61000 61001 61001 "''1.2.3.4''" reservation]
      rateLimit_window_reset [of spent_store 30000 30001 30001 "''1.2.3.4''" reservation]
      policy memory durable
    unfolding key policy(3) window by simp
qed

text \<open>
  Against C5 as stated, on the durable backend: every call renews the expiry of the
  counter, so a counter that keeps being called outlives the fixed window in which it
  began. After six calls in the window that ends at second 60, a seventh call at
  second 61, which lies in the window that ends at second 120, is refused.
\<close>

theorem rateLimit_durable_counter_outlives_window:
  "map (map_sum id (\<lambda>r. (success r, remaining r, reset' r)))
     (fst (rateLimit_calls (boot env_on :: nat system)
        (six_calls_in_a_minute @ [(61000, 61001, 61001)]) ''1.2.3.4'' reservation)) =
   [Inr (True, 4, 60), Inr (True, 3, 60), Inr (True, 2, 60), Inr (True, 1, 60),
    Inr (True, 0, 60), Inr (False, 0, 60), Inr (False, 0, 120)]"
  by (simp add: six_calls_in_a_minute_def boot_def env_on_def reservation_def rateLimit_def
      rateLimit_redis_def getRedis_def INCR_def EXPIRE_def lookup_def live_def counterKey_def
      fullKey_def dflt_def windowEnd_def falsy_def Let_def)

text \<open>
  The in-memory backend at the very instant at which a window ends: the counter of the
  window that ends at second 60 is still in force at the clock reading 60000, although
  that instant belongs to the next window, and the call there is counted against it.
  One millisecond later the counter is fresh.
\<close>

lemma rateLimit_memory_boundary_instant:
  "map (map_sum id (\<lambda>r. (success r, remaining r, reset' r)))
     (fst (rateLimit_calls spent_memory [(60000, 60000, 60000), (60001, 60001, 60001)]
        ''1.2.3.4'' reservation)) =
   [Inr (False, 0, 60), Inr (True, 4, 120)]"
  by (simp add: spent_memory_def boot_def env_off_def reservation_def rateLimit_def
      rateLimit_memory_def cleanupMemoryStore_def getRedis_def counterKey_def
      fullKey_def dflt_def windowEnd_def Let_def)




text \<open>
  The condition on the in-memory counter carries over from call to call: a counter
  that a call under a policy leaves behind began under that policy's
  \<open>windowInSeconds\<close>, at an instant no later than the call.
\<close>

lemma rateLimit_counter_origin:
  fixes s :: "'v system"
  assumes "\<not> isRedisEnabled (env s)"
    and "\<forall>c. memoryStore s (counterKey config identifier) = Some c \<longrightarrow>
           (\<exists>t. t \<le> t0 \<and> reset c = windowEnd t (windowInSeconds config) * 1000)"
    and "memoryStore (snd (rateLimit s t0 t1 t2 identifier config))
           (counterKey config identifier) = Some c'"
  shows "\<exists>t. t \<le> t0 \<and> reset c' = windowEnd t (windowInSeconds config) * 1000"
proof -
  let ?k = "counterKey config identifier"
  let ?g = "snd (getRedis s)"
  have path: "rateLimit s t0 t1 t2 identifier config =
      rateLimit_memory ?g t1 t2 ?k config (windowEnd t0 (windowInSeconds config))"
    using assms(1) by (rule rateLimit_memory_path)
  consider (fresh) "memoryStore ?g ?k = None \<or>
        (\<exists>c. memoryStore ?g ?k = Some c \<and> (reset c < t1 \<or> reset c < t2))"
    | (existing) c where "memoryStore ?g ?k = Some c" "t1 \<le> reset c" "t2 \<le> reset c"
    by (cases "memoryStore ?g ?k") (auto simp: not_less [symmetric])
  then show ?thesis
  proof cases
    case fresh
    from rateLimit_memory_fresh(2) [OF fresh, of config "windowEnd t0 (windowInSeconds config)"]
    show ?thesis
      using assms(3) unfolding path by auto
  next
    case existing
    from rateLimit_memory_existing(2) [OF existing, of config]
    show ?thesis
      using assms(2,3) existing(1) unfolding path by auto
  qed
qed



section \<open>The cache\<close>

lemma getRedis_cases:
  obtains (memory) "\<not> isRedisEnabled (env s)" "fst (getRedis s) = None"
  | (durable) h where "isRedisEnabled (env s)" "fst (getRedis s) = Some h"
  using getRedis_None [of s] by (cases "fst (getRedis s)") auto

lemma get_memory:
  "\<not> isRedisEnabled (env s) \<Longrightarrow>
    fst (get J s t key prefix) =
      (case memoryCache s (fullKey (dflt ''cache'' prefix) key) of
         None \<Rightarrow> None
       | Some c \<Rightarrow> if expiry c > t then Some (data c) else None)"
  by (cases s rule: getRedis_cases)
    (simp_all add: get_def Let_def case_prod_unfold split: option.splits)

lemma get_redis:
  "isRedisEnabled (env s) \<Longrightarrow>
    fst (get J s t key prefix) =
      (case redis_get J (store s) t (fullKey (dflt ''cache'' prefix) key) of
         None \<Rightarrow> None
       | Some r \<Rightarrow> if truthyReply J r then parseReply J r else None)"
  by (cases s rule: getRedis_cases)
    (simp_all add: get_def Let_def case_prod_unfold split: option.splits)

lemma decode_undecodable: "parse J p = None \<Longrightarrow> decode J p = Raw p"
  by (simp add: decode_def)

lemma redis_get_undecodable:
  "GET d t k = Some p \<Longrightarrow> parse J p = None \<Longrightarrow> redis_get J d t k = Some (Raw p)"
  by (simp add: redis_get_def decode_undecodable)

lemma redis_get_absent: "GET d t k = None \<Longrightarrow> redis_get J d t k = None"
  by (simp add: redis_get_def)

lemma parseReply_Raw [simp]: "parseReply J (Raw p) = parse J p"
  by (simp add: parseReply_def)


lemma set'_memory:
  "\<not> isRedisEnabled (env s) \<Longrightarrow>
    set' J s t key v config =
      (snd (getRedis s))\<lparr>memoryCache :=
        (memoryCache s)(fullKey (dflt ''cache'' (keyPrefix config)) key \<mapsto>
           \<lparr>data = v, expiry = t + dflt 300 (ttl config) * 1000\<rparr>)\<rparr>"
  by (cases s rule: getRedis_cases) (simp_all add: set'_def Let_def case_prod_unfold)

lemma set'_redis:
  "isRedisEnabled (env s) \<Longrightarrow>
    set' J s t key v config =
      (snd (getRedis s))\<lparr>store :=
        SETEX (store s) t (fullKey (dflt ''cache'' (keyPrefix config)) key)
          (dflt 300 (ttl config)) (stringify J v)\<rparr>"
  by (cases s rule: getRedis_cases) (simp_all add: set'_def Let_def case_prod_unfold)

lemma set'_env [simp]: "env (set' J s t key v config) = env s"
  by (cases "isRedisEnabled (env s)") (simp_all add: set'_memory set'_redis)

lemma getOrSet_memory_path:
  "\<not> isRedisEnabled (env s) \<Longrightarrow>
    getOrSet J s t0 t1 t2 key fetcher config =
      getOrSet_memory (snd (getRedis s)) t0 t1 t2
        (fullKey (dflt ''cache'' (keyPrefix config)) key) fetcher (dflt 300 (ttl config))"
  by (cases s rule: getRedis_cases) (simp_all add: getOrSet_def Let_def case_prod_unfold)

lemma getOrSet_redis_path:
  "isRedisEnabled (env s) \<Longrightarrow>
    getOrSet J s t0 t1 t2 key fetcher config =
      getOrSet_redis J (snd (getRedis s)) t0 t2
        (fullKey (dflt ''cache'' (keyPrefix config)) key) fetcher (dflt 300 (ttl config))"
  by (cases s rule: getRedis_cases) (simp_all add: getOrSet_def Let_def case_prod_unfold)

text \<open>
  What a read makes of a write. A value stored by \<open>set'\<close> at the instant \<open>ts\<close> with a TTL
  of \<open>T\<close> seconds is what \<open>get\<close> returns at every instant before \<open>ts + 1000 * T\<close> on the
  in-memory backend; on the durable backend \<open>get\<close> returns what \<open>readsBack\<close> makes of the
  value, which is decoded once by the client and once more by \<open>get\<close>. From
  \<open>ts + 1000 * T\<close> on, \<open>get\<close> returns nothing on either backend.
\<close>

lemma get_after_set:
  fixes s :: "'v system"
  shows "fst (get J (set' J s ts key v config) tg key (keyPrefix config)) =
           (if tg < ts + dflt 300 (ttl config) * 1000
            then if isRedisEnabled (env s) then readsBack J v else Some v
            else None)"
proof (cases "isRedisEnabled (env s)")
  case True
  then show ?thesis
    by (simp add: get_redis set'_redis redis_get_def GET_def SETEX_def lookup_def live_def
        readsBack_def Let_def)
next
  case False
  then show ?thesis
    by (simp add: get_memory set'_memory)
qed

text \<open>
  No read returns an entry whose expiry has passed, on either backend: \<open>get\<close> returns
  nothing, and \<open>getOrSet\<close> invokes the producer and returns its outcome.
\<close>

lemma expired_entry_not_read:
  fixes s :: "'v system"
  shows "expiredAt s (fullKey (dflt ''cache'' prefix) key) t \<Longrightarrow> fst (get J s t key prefix) = None"
    and "expiredAt s (fullKey (dflt ''cache'' (keyPrefix config)) key) t0 \<Longrightarrow> t0 \<le> t1 \<Longrightarrow>
            fst (getOrSet J s t0 t1 t2 key fetcher config) = fetcher \<and>
            fst (snd (getOrSet J s t0 t1 t2 key fetcher config))"
proof -
  show "fst (get J s t key prefix) = None"
    if "expiredAt s (fullKey (dflt ''cache'' prefix) key) t"
  proof (cases "isRedisEnabled (env s)")
    case True
    with that show ?thesis
      by (auto simp: get_redis redis_get_def expiredAt_def GET_def lookup_def
          split: option.splits)
  next
    case False
    with that show ?thesis
      by (auto simp: get_memory expiredAt_def split: option.splits)
  qed
  show "fst (getOrSet J s t0 t1 t2 key fetcher config) = fetcher \<and>
            fst (snd (getOrSet J s t0 t1 t2 key fetcher config))"
    if "expiredAt s (fullKey (dflt ''cache'' (keyPrefix config)) key) t0" "t0 \<le> t1"
  proof (cases "isRedisEnabled (env s)")
    case True
    with that show ?thesis
      by (auto simp: getOrSet_redis_path getOrSet_redis_def redis_get_def expiredAt_def
          GET_def lookup_def Let_def split: option.splits sum.splits)
  next
    case False
    with that show ?thesis
      by (auto simp: getOrSet_memory_path getOrSet_memory_def cleanupMemoryCache_def
          expiredAt_def Let_def split: option.splits sum.splits)
  qed
qed

text \<open>
  The values that the durable backend loses: a value that is false in a condition, and
  a value whose string is no JSON text, each decoded by the client as itself, are not
  read back.
\<close>

lemma readsBack_falsy:
  "decode J (stringify J v) = Decoded v \<Longrightarrow> \<not> truthy J v \<Longrightarrow> readsBack J v = None"
  by (simp add: readsBack_def truthyReply_def Let_def)

lemma readsBack_no_text:
  "decode J (stringify J v) = Decoded v \<Longrightarrow> parse J (asText J v) = None
    \<Longrightarrow> readsBack J v = None"
  by (simp add: readsBack_def parseReply_def Let_def)

text \<open>
  C2, at a concrete input. With the durable backend in use, the count 0 and the object
  \<^verbatim>\<open>{}\<close> are stored at the instant 1000 with a TTL of ten seconds, and one millisecond
  later \<open>get\<close> returns nothing for either, where the claim says the stored value. The
  in-memory backend returns the stored values at the same instants.
\<close>

theorem get_after_set_durable_loses_value:
  "fst (get natJSON (set' natJSON (boot env_on) 1000 ''cars'' 0 ten_seconds) 1001 ''cars''
     None) = None \<and>
   fst (get docJSON (set' docJSON (boot env_on) 1000 ''cars'' Object ten_seconds) 1001 ''cars''
     None) = None \<and>
   fst (get natJSON (set' natJSON (boot env_off) 1000 ''cars'' 0 ten_seconds) 1001 ''cars''
     None) = Some 0 \<and>
   fst (get docJSON (set' docJSON (boot env_off) 1000 ''cars'' Object ten_seconds) 1001 ''cars''
     None) = Some Object"
proof -
  have config: "keyPrefix ten_seconds = None" "dflt 300 (ttl ten_seconds) = 10"
    by (simp_all add: ten_seconds_def dflt_def)
  have off: "\<not> isRedisEnabled (env (boot env_off :: nat system))"
      "\<not> isRedisEnabled (env (boot env_off :: doc system))"
    and on: "isRedisEnabled (env (boot env_on :: nat system))"
      "isRedisEnabled (env (boot env_on :: doc system))"
    by (simp_all add: boot_def env_off_def env_on_def isRedisEnabled_def falsy_def)
  have zero: "readsBack natJSON 0 = None"
    by (simp add: readsBack_def decode_def truthyReply_def natJSON_def)
  have object: "readsBack docJSON Object = None"
    by (simp add: readsBack_def decode_def truthyReply_def parseReply_def docJSON_def)
  show ?thesis
    using get_after_set [of natJSON "boot env_on" 1000 "''cars''" 0 ten_seconds 1001]
      get_after_set [of docJSON "boot env_on" 1000 "''cars''" Object ten_seconds 1001]
      get_after_set [of natJSON "boot env_off" 1000 "''cars''" 0 ten_seconds 1001]
      get_after_set [of docJSON "boot env_off" 1000 "''cars''" Object ten_seconds 1001]
      off on zero object
    unfolding config by simp
qed

lemma getOrSet_env [simp]: "env (snd (snd (getOrSet J s t0 t1 t2 key fetcher config))) = env s"
  by (cases "isRedisEnabled (env s)")
    (simp_all add: getOrSet_memory_path getOrSet_redis_path getOrSet_memory_def
      getOrSet_redis_def Let_def split: option.splits sum.splits)

lemma live_earlier: "live e t' \<Longrightarrow> t \<le> t' \<Longrightarrow> live e t"
  by (auto simp: live_def split: option.splits)

text \<open>
  A second \<open>getOrSet\<close> on the in-memory backend. Let a call of \<open>getOrSet\<close> for a key
  return the value \<open>v\<close>. Then every later call for that key whose clock readings lie in
  the TTL window of the entry that the first call left returns \<open>v\<close> and does not invoke
  its producer. Where the first call invoked its producer, that window is the \<open>ttl\<close>
  seconds (300 by default) from the instant at which the first call stored the value.
\<close>

lemma getOrSet_again_memory:
  fixes s :: "'v system"
  assumes first: "getOrSet J s a0 a1 a2 key producer config = (Inr v, invoked, s1)"
    and memory: "\<not> isRedisEnabled (env s)"
  shows "(invoked \<longrightarrow>
            (\<forall>t. unexpiredAt s1 (fullKey (dflt ''cache'' (keyPrefix config)) key) t \<longleftrightarrow>
                 t < a2 + dflt 300 (ttl config) * 1000)) \<and>
         (\<forall>b0 b1 b2 producer2.
            b0 \<le> b1 \<and> unexpiredAt s1 (fullKey (dflt ''cache'' (keyPrefix config)) key) b1 \<longrightarrow>
              fst (getOrSet J s1 b0 b1 b2 key producer2 config) = Inr v \<and>
              \<not> fst (snd (getOrSet J s1 b0 b1 b2 key producer2 config)))"
proof -
  let ?k = "fullKey (dflt ''cache'' (keyPrefix config)) key"
  let ?g = "snd (getRedis s)"
  have en: "\<not> isRedisEnabled (env s1)"
    using memory getOrSet_env [of J s a0 a1 a2 key producer config] first by simp
  have run: "getOrSet_memory ?g a0 a1 a2 ?k producer (dflt 300 (ttl config)) =
      (Inr v, invoked, s1)"
    using first memory by (simp add: getOrSet_memory_path)
  have entry: "\<exists>c. memoryCache s1 ?k = Some c \<and> data c = v \<and>
      (invoked \<longrightarrow> expiry c = a2 + dflt 300 (ttl config) * 1000)"
    using run
    by (auto simp: getOrSet_memory_def Let_def split: option.splits sum.splits if_splits)
  then obtain c where c: "memoryCache s1 ?k = Some c" "data c = v"
    "invoked \<longrightarrow> expiry c = a2 + dflt 300 (ttl config) * 1000"
    by blast
  have window: "unexpiredAt s1 ?k t \<longleftrightarrow> t < a2 + dflt 300 (ttl config) * 1000"
    if invoked for t
    using that c en by (simp add: unexpiredAt_def)
  have again: "fst (getOrSet J s1 b0 b1 b2 key producer2 config) = Inr v \<and>
      \<not> fst (snd (getOrSet J s1 b0 b1 b2 key producer2 config))"
    if "b0 \<le> b1" "unexpiredAt s1 ?k b1" for b0 b1 b2 producer2
    using that c en
    by (simp add: getOrSet_memory_path getOrSet_memory_def cleanupMemoryCache_def
        unexpiredAt_def Let_def)
  from window again show ?thesis by blast
qed

text \<open>
  A second \<open>getOrSet\<close> on the durable backend. Let a call of \<open>getOrSet\<close> for a key have
  invoked its producer and stored the value \<open>v\<close>. A later call inside the \<open>ttl\<close> seconds
  from the instant of the store returns what \<open>readsBack\<close> makes of \<open>v\<close>; where that is
  nothing, the later call invokes its own producer and returns that producer's outcome.
\<close>

lemma getOrSet_again_durable:
  fixes s :: "'v system"
  assumes first: "getOrSet J s a0 a1 a2 key producer config = (Inr v, True, s1)"
    and durable: "isRedisEnabled (env s)"
    and window: "b0 < a2 + dflt 300 (ttl config) * 1000"
  shows "fst (getOrSet J s1 b0 b1 b2 key producer2 config) =
           (case readsBack J v of Some v' \<Rightarrow> Inr v' | None \<Rightarrow> producer2) \<and>
         fst (snd (getOrSet J s1 b0 b1 b2 key producer2 config)) = (readsBack J v = None)"
proof -
  let ?k = "fullKey (dflt ''cache'' (keyPrefix config)) key"
  let ?g = "snd (getRedis s)"
  have en: "isRedisEnabled (env s1)"
    using durable getOrSet_env [of J s a0 a1 a2 key producer config] first by simp
  have run: "getOrSet_redis J ?g a0 a2 ?k producer (dflt 300 (ttl config)) = (Inr v, True, s1)"
    using first durable by (simp add: getOrSet_redis_path)
  have entry: "store s1 ?k =
      Some \<lparr>payload = stringify J v, expireAt = Some (a2 + dflt 300 (ttl config) * 1000)\<rparr>"
    using run
    by (auto simp: getOrSet_redis_def SETEX_def Let_def
        split: option.splits sum.splits if_splits)
  have reply: "redis_get J (store s1) b0 ?k = Some (decode J (stringify J v))"
    using entry window by (simp add: redis_get_def GET_def lookup_def live_def)
  show ?thesis
    using en reply
    by (simp add: getOrSet_redis_path getOrSet_redis_def readsBack_def Let_def
        split: option.splits sum.splits)
qed

text \<open>
  C3, at a concrete input. With the durable backend in use, a first \<open>getOrSet\<close> with a
  TTL of 300 seconds invokes its producer and returns the count 0, and so does one that
  returns the object \<^verbatim>\<open>{}\<close>. A second \<open>getOrSet\<close> for the same key one second later, well
  inside the TTL window, invokes its own producer and returns that producer's value 9,
  where the claim says the first value and no invocation. The in-memory backend returns
  the first value at the same instants and does not invoke the second producer.
\<close>

theorem getOrSet_durable_produces_again:
  "getOrSet natJSON (boot env_on) 0 0 5 ''cars'' (Inr 0) five_minutes =
     (Inr 0, True, snd (snd (getOrSet natJSON (boot env_on) 0 0 5 ''cars'' (Inr 0) five_minutes))) \<and>
   fst (getOrSet natJSON
          (snd (snd (getOrSet natJSON (boot env_on) 0 0 5 ''cars'' (Inr 0) five_minutes)))
          1000 1001 1002 ''cars'' (Inr 9) five_minutes) = Inr 9 \<and>
   fst (snd (getOrSet natJSON
          (snd (snd (getOrSet natJSON (boot env_on) 0 0 5 ''cars'' (Inr 0) five_minutes)))
          1000 1001 1002 ''cars'' (Inr 9) five_minutes)) \<and>
   fst (getOrSet docJSON
          (snd (snd (getOrSet docJSON (boot env_on) 0 0 5 ''cars'' (Inr Object) five_minutes)))
          1000 1001 1002 ''cars'' (Inr (Count 9)) five_minutes) = Inr (Count 9) \<and>
   fst (snd (getOrSet docJSON
          (snd (snd (getOrSet docJSON (boot env_on) 0 0 5 ''cars'' (Inr Object) five_minutes)))
          1000 1001 1002 ''cars'' (Inr (Count 9)) five_minutes)) \<and>
   fst (getOrSet natJSON
          (snd (snd (getOrSet natJSON (boot env_off) 0 0 5 ''cars'' (Inr 0) five_minutes)))
          1000 1001 1002 ''cars'' (Inr 9) five_minutes) = Inr 0 \<and>
   \<not> fst (snd (getOrSet natJSON
          (snd (snd (getOrSet natJSON (boot env_off) 0 0 5 ''cars'' (Inr 0) five_minutes)))
          1000 1001 1002 ''cars'' (Inr 9) five_minutes))"
proof -
  let ?on = "getOrSet natJSON (boot env_on) 0 0 5 ''cars'' (Inr 0) five_minutes"
  let ?doc = "getOrSet docJSON (boot env_on) 0 0 5 ''cars'' (Inr Object) five_minutes"
  let ?off = "getOrSet natJSON (boot env_off) 0 0 5 ''cars'' (Inr 0) five_minutes"
  have off: "\<not> isRedisEnabled (env (boot env_off :: nat system))"
      "\<not> isRedisEnabled (env (boot env_off :: doc system))"
    and on: "isRedisEnabled (env (boot env_on :: nat system))"
      "isRedisEnabled (env (boot env_on :: doc system))"
    by (simp_all add: boot_def env_off_def env_on_def isRedisEnabled_def falsy_def)
  have ttl: "dflt 300 (ttl five_minutes) = 300"
    by (simp add: five_minutes_def dflt_def)
  have zero: "readsBack natJSON 0 = None"
    by (simp add: readsBack_def decode_def truthyReply_def natJSON_def)
  have object: "readsBack docJSON Object = None"
    by (simp add: readsBack_def decode_def truthyReply_def parseReply_def docJSON_def)
  have first_on: "?on = (Inr 0, True, snd (snd ?on))"
    using on
    by (simp add: getOrSet_redis_path getOrSet_redis_def redis_get_def GET_def lookup_def
        Let_def boot_def)
  have first_doc: "?doc = (Inr Object, True, snd (snd ?doc))"
    using on
    by (simp add: getOrSet_redis_path getOrSet_redis_def redis_get_def GET_def lookup_def
        Let_def boot_def)
  have first_off: "?off = (Inr 0, True, snd (snd ?off))"
    using off
    by (simp add: getOrSet_memory_path getOrSet_memory_def cleanupMemoryCache_def Let_def
        boot_def)
  have live_off: "unexpiredAt (snd (snd ?off))
      (fullKey (dflt ''cache'' (keyPrefix five_minutes)) ''cars'') 1001"
    using getOrSet_again_memory [OF first_off off(1)] ttl by simp
  have 1: "fst (getOrSet natJSON (snd (snd ?on)) 1000 1001 1002 ''cars'' (Inr 9) five_minutes)
        = Inr 9 \<and>
      fst (snd (getOrSet natJSON (snd (snd ?on)) 1000 1001 1002 ''cars'' (Inr 9) five_minutes))"
    using getOrSet_again_durable [OF first_on on(1), of 1000 1001 1002 "Inr 9"] zero ttl by simp
  have 2: "fst (getOrSet docJSON (snd (snd ?doc)) 1000 1001 1002 ''cars'' (Inr (Count 9))
        five_minutes) = Inr (Count 9) \<and>
      fst (snd (getOrSet docJSON (snd (snd ?doc)) 1000 1001 1002 ''cars'' (Inr (Count 9))
        five_minutes))"
    using getOrSet_again_durable [OF first_doc on(2), of 1000 1001 1002 "Inr (Count 9)"] object ttl
    by simp
  have 3: "fst (getOrSet natJSON (snd (snd ?off)) 1000 1001 1002 ''cars'' (Inr 9) five_minutes)
        = Inr 0 \<and>
      \<not> fst (snd (getOrSet natJSON (snd (snd ?off)) 1000 1001 1002 ''cars'' (Inr 9)
        five_minutes))"
    using getOrSet_again_memory [OF first_off off(1)] live_off by simp
  from first_on 1 2 3 show ?thesis by blast
qed

text \<open>
  C7. On the durable backend, let the key hold a payload that does not decode. Then
  \<open>get\<close> returns nothing, and \<open>getOrSet\<close> invokes the producer and returns its
  outcome; when the producer resolves, the value is stored with the TTL given, and the
  call is the same, in its result and in the state it leaves, as the call on the store
  without the key.
\<close>

theorem malformed_payload_is_a_miss:
  fixes s :: "'v system"
  assumes "isRedisEnabled (env s)"
    and "GET (store s) t0 (fullKey (dflt ''cache'' (keyPrefix config)) key) = Some p"
    and "parse J p = None"
  shows "fst (get J s t0 key (keyPrefix config)) = None \<and>
         fst (getOrSet J s t0 t1 t2 key producer config) = producer \<and>
         fst (snd (getOrSet J s t0 t1 t2 key producer config)) \<and>
         (\<forall>d. producer = Inr d \<longrightarrow>
            store (snd (snd (getOrSet J s t0 t1 t2 key producer config)))
                (fullKey (dflt ''cache'' (keyPrefix config)) key) =
              Some \<lparr>payload = stringify J d,
                    expireAt = Some (t2 + dflt 300 (ttl config) * 1000)\<rparr> \<and>
            getOrSet J
                (s\<lparr>store := (store s)(fullKey (dflt ''cache'' (keyPrefix config)) key := None)\<rparr>)
                t0 t1 t2 key producer config =
              getOrSet J s t0 t1 t2 key producer config)"
proof -
  let ?k = "fullKey (dflt ''cache'' (keyPrefix config)) key"
  let ?s = "s\<lparr>store := (store s)(?k := None)\<rparr>"
  have en: "isRedisEnabled (env ?s)"
    using assms(1) by simp
  have g: "snd (getRedis ?s) = (snd (getRedis s))\<lparr>store := (store s)(?k := None)\<rparr>"
    by (simp add: getRedis_def Let_def split: option.splits)
  have 1: "fst (get J s t0 key (keyPrefix config)) = None"
    using assms by (simp add: get_redis redis_get_undecodable)
  have 2: "fst (getOrSet J s t0 t1 t2 key producer config) = producer \<and>
         fst (snd (getOrSet J s t0 t1 t2 key producer config))"
    using assms
    by (simp add: getOrSet_redis_path getOrSet_redis_def redis_get_undecodable Let_def
        split: sum.splits)
  have 3: "store (snd (snd (getOrSet J s t0 t1 t2 key producer config))) ?k =
              Some \<lparr>payload = stringify J d,
                    expireAt = Some (t2 + dflt 300 (ttl config) * 1000)\<rparr> \<and>
            getOrSet J ?s t0 t1 t2 key producer config =
              getOrSet J s t0 t1 t2 key producer config"
    if "producer = Inr d" for d
  proof -
    let ?after = "(snd (getRedis s))\<lparr>store :=
        SETEX (store s) t2 ?k (dflt 300 (ttl config)) (stringify J d)\<rparr>"
    have held: "getOrSet J s t0 t1 t2 key producer config = (Inr d, True, ?after)"
      using assms that
      by (simp add: getOrSet_redis_path getOrSet_redis_def redis_get_undecodable Let_def)
    have absent: "GET ((store s)(?k := None)) t0 ?k = None"
      by (simp add: GET_def lookup_def)
    have missed: "getOrSet J ?s t0 t1 t2 key producer config = (Inr d, True, ?after)"
      using that absent
      by (simp add: getOrSet_redis_path [OF en] g getOrSet_redis_def redis_get_absent
          SETEX_def Let_def)
    show ?thesis
      unfolding held missed by (simp add: SETEX_def)
  qed
  from 1 2 3 show ?thesis by blast
qed

theorem malformed_payload_is_a_miss_witness:
  "fst (get natJSON garbled 1000 ''cars'' None) = None \<and>
   fst (getOrSet natJSON garbled 1000 1001 1002 ''cars'' (Inr 7) ten_seconds) = Inr 7 \<and>
   fst (snd (getOrSet natJSON garbled 1000 1001 1002 ''cars'' (Inr 7) ten_seconds)) \<and>
   store (snd (snd (getOrSet natJSON garbled 1000 1001 1002 ''cars'' (Inr 7) ten_seconds)))
     ''cache:cars'' = Some \<lparr>payload = Integer 7, expireAt = Some 11002\<rparr>"
proof -
  have on: "isRedisEnabled (env garbled)"
    by (simp add: garbled_def boot_def env_on_def isRedisEnabled_def falsy_def)
  have config: "keyPrefix ten_seconds = None" "dflt 300 (ttl ten_seconds) = 10"
    by (simp_all add: ten_seconds_def dflt_def)
  have key: "fullKey (dflt ''cache'' None) ''cars'' = ''cache:cars''"
    by (simp add: fullKey_def dflt_def)
  have held: "GET (store garbled) 1000 ''cache:cars'' = Some (Text ''{oops'')"
    by (simp add: garbled_def boot_def GET_def lookup_def live_def)
  have bad: "parse natJSON (Text ''{oops'') = None"
    by (simp add: natJSON_def)
  show ?thesis
    using malformed_payload_is_a_miss [where s = garbled and J = natJSON and ?t0.0 = 1000
        and ?t1.0 = 1001 and ?t2.0 = 1002 and key = "''cars''" and config = ten_seconds
        and p = "Text ''{oops''" and producer = "Inr 7"]
      on held bad
    unfolding config key
    by (simp add: natJSON_def)
qed





lemma glob_star [simp]: "glob ''*'' k"
  by (induction k) simp_all

lemma startsWith_Nil [simp]: "startsWith k []"
  by (simp add: startsWith_def)

lemma startsWith_Cons:
  "startsWith k (c # p) = (case k of [] \<Rightarrow> False | x # k' \<Rightarrow> x = c \<and> startsWith k' p)"
  by (cases k) (auto simp: startsWith_def)

lemma glob_plain_prefix: "plain p \<Longrightarrow> glob (p @ ''*'') k = startsWith k p"
proof (induction p arbitrary: k)
  case Nil
  then show ?case by (simp del: glob.simps)
next
  case (Cons c p)
  then have "plain p" and "c \<noteq> CHR ''*''" "c \<noteq> CHR ''?''" "c \<noteq> CHR 0x5C"
    by (auto simp: plain_def)
  with Cons.IH show ?case
    by (simp add: startsWith_Cons split: list.splits)
qed

lemma plain_fullKey: "plain a \<Longrightarrow> plain b \<Longrightarrow> plain (fullKey a b)"
  by (auto simp: plain_def fullKey_def)

lemma fullKey_append: "fullKey a (b @ c) = fullKey a b @ c"
  by (simp add: fullKey_def)

lemma remove1_trailing_star: "CHR ''*'' \<notin> set p \<Longrightarrow> remove1 (CHR ''*'') (p @ ''*'') = p"
  by (simp add: remove1_append)

lemma delPattern_memory:
  "\<not> isRedisEnabled (env s) \<Longrightarrow>
    memoryCache (delPattern s t pattern prefix) =
      (\<lambda>key. if startsWith key (remove1 (CHR ''*'') (fullKey (dflt ''cache'' prefix) pattern))
              then None else memoryCache s key)"
  by (cases s rule: getRedis_cases)
    (simp_all add: delPattern_def Let_def case_prod_unfold cong: if_cong)

lemma delPattern_redis:
  "isRedisEnabled (env s) \<Longrightarrow>
    store (delPattern s t pattern prefix) =
      DEL (store s) (KEYS (store s) t (fullKey (dflt ''cache'' prefix) pattern))"
  by (cases s rule: getRedis_cases)
    (auto simp: delPattern_def Let_def case_prod_unfold DEL_def)

lemma delPattern_env [simp]: "env (delPattern s t pattern prefix) = env s"
  by (simp add: delPattern_def Let_def case_prod_unfold split: option.splits)

text \<open>
  C6, as the code has it. The key prefix and the pattern are joined into one full
  pattern before anything is matched. On the in-memory backend, for a key prefix and a
  literal prefix without a star, \<open>delPattern\<close> of the literal prefix followed by a star
  removes the entries whose key begins with \<open>keyPrefix:literal\<close> and leaves every other
  entry as it is. On the durable backend, for a key prefix and a literal prefix that
  are plain, it removes the visible entries whose key begins so, and a later read of
  any other key finds what it would have found.
\<close>

theorem delPattern_prefix:
  fixes s :: "'v system"
  shows "(\<not> isRedisEnabled (env s) \<and> CHR ''*'' \<notin> set (dflt ''cache'' prefix) \<and>
            CHR ''*'' \<notin> set lit \<longrightarrow>
            memoryCache (delPattern s t (lit @ ''*'') prefix) =
              (\<lambda>key. if startsWith key (fullKey (dflt ''cache'' prefix) lit) then None
                      else memoryCache s key)) \<and>
         (isRedisEnabled (env s) \<and> plain (dflt ''cache'' prefix) \<and> plain lit \<longrightarrow>
            (\<forall>key t'. t \<le> t' \<longrightarrow>
               GET (store (delPattern s t (lit @ ''*'') prefix)) t' key =
                 (if startsWith key (fullKey (dflt ''cache'' prefix) lit) then None
                  else GET (store s) t' key)))"
proof (intro conjI impI allI)
  assume a: "\<not> isRedisEnabled (env s) \<and> CHR ''*'' \<notin> set (dflt ''cache'' prefix) \<and>
      CHR ''*'' \<notin> set lit"
  then have "CHR ''*'' \<notin> set (fullKey (dflt ''cache'' prefix) lit)"
    by (auto simp: fullKey_def)
  then show "memoryCache (delPattern s t (lit @ ''*'') prefix) =
      (\<lambda>key. if startsWith key (fullKey (dflt ''cache'' prefix) lit) then None
              else memoryCache s key)"
    using a by (simp add: delPattern_memory fullKey_append remove1_trailing_star)
next
  fix key t'
  assume a: "isRedisEnabled (env s) \<and> plain (dflt ''cache'' prefix) \<and> plain lit"
    and later: "t \<le> t'"
  let ?p = "fullKey (dflt ''cache'' prefix) lit"
  have keys: "KEYS (store s) t (fullKey (dflt ''cache'' prefix) (lit @ ''*'')) =
      {k. lookup (store s) t k \<noteq> None \<and> startsWith k ?p}"
    using a by (simp add: KEYS_def fullKey_append glob_plain_prefix plain_fullKey)
  have gone: "GET (store s) t' key = None" if "lookup (store s) t key = None"
    using that later live_earlier [of _ t' t]
    by (auto simp: GET_def lookup_def split: option.splits if_splits)
  show "GET (store (delPattern s t (lit @ ''*'') prefix)) t' key =
      (if startsWith key ?p then None else GET (store s) t' key)"
    using a gone
    by (auto simp: delPattern_redis keys DEL_def GET_def lookup_def)
qed

theorem delPattern_prefix_witness:
  "map (\<lambda>key. fst (get natJSON (delPattern (three_keys env_off) 3 ''a:*'' None) 4 key None))
     [''a:1'', ''a:2'', ''b:1''] = [None, None, Some 3] \<and>
   map (\<lambda>key. fst (get natJSON (delPattern (three_keys env_on) 3 ''a:*'' None) 4 key None))
     [''a:1'', ''a:2'', ''b:1''] = [None, None, Some 3]"
proof -
  have off: "\<not> isRedisEnabled (env (three_keys env_off))"
    and on: "isRedisEnabled (env (three_keys env_on))"
    by (simp_all add: three_keys_def boot_def env_off_def env_on_def isRedisEnabled_def
        falsy_def)
  have lit: "CHR ''*'' \<notin> set (dflt ''cache'' None)" "CHR ''*'' \<notin> set ''a:''"
    "plain (dflt ''cache'' None)" "plain ''a:''"
    by (simp_all add: dflt_def plain_def)
  have b_off: "memoryCache (three_keys env_off) ''cache:b:1'' =
      Some \<lparr>data = 3, expiry = 300002\<rparr>"
    by (simp add: three_keys_def set'_def getRedis_def boot_def env_off_def five_minutes_def
        fullKey_def dflt_def Let_def)
  have b_on: "GET (store (three_keys env_on)) 4 ''cache:b:1'' = Some (Integer 3)"
    by (simp add: three_keys_def set'_def getRedis_def boot_def env_on_def five_minutes_def
        fullKey_def dflt_def falsy_def natJSON_def SETEX_def GET_def lookup_def live_def Let_def)
  have memory: "memoryCache (delPattern (three_keys env_off) 3 ''a:*'' None) =
      (\<lambda>key. if startsWith key (fullKey (dflt ''cache'' None) ''a:'') then None
              else memoryCache (three_keys env_off) key)"
    using delPattern_prefix [of "three_keys env_off" None "''a:''" 3] off lit by simp
  have durable: "GET (store (delPattern (three_keys env_on) 3 ''a:*'' None)) 4 key =
      (if startsWith key (fullKey (dflt ''cache'' None) ''a:'') then None
       else GET (store (three_keys env_on)) 4 key)" for key
    using delPattern_prefix [of "three_keys env_on" None "''a:''" 3] on lit by simp
  have 1: "map (\<lambda>key. fst (get natJSON (delPattern (three_keys env_off) 3 ''a:*'' None)
      4 key None)) [''a:1'', ''a:2'', ''b:1''] = [None, None, Some 3]"
    using off b_off
    by (simp add: get_memory memory startsWith_def fullKey_def dflt_def)
  have 2: "map (\<lambda>key. fst (get natJSON (delPattern (three_keys env_on) 3 ''a:*'' None)
      4 key None)) [''a:1'', ''a:2'', ''b:1''] = [None, None, Some 3]"
    using on b_on
    by (simp add: get_redis redis_get_def durable startsWith_def fullKey_def dflt_def
        decode_def truthyReply_def parseReply_def natJSON_def)
  from 1 2 show ?thesis by simp
qed

text \<open>
  Against C6 as stated: under the key prefix \<open>c*\<close> the in-memory path strips the star
  of the key prefix, not the trailing one, and \<^verbatim>\<open>deleteByPattern("a:*")\<close> leaves the key
  \<open>a:1\<close> of that prefix in the cache.
\<close>

theorem delPattern_star_in_keyPrefix:
  "fst (get natJSON
         (delPattern (set' natJSON (boot env_off) 0 ''a:1'' 7 starred) 1 ''a:*'' (Some ''c*''))
         2 ''a:1'' (Some ''c*'')) = Some 7"
  by (simp add: get_def delPattern_def set'_def getRedis_def boot_def env_off_def starred_def
      fullKey_def dflt_def startsWith_def Let_def)

end
